theory Spec2Isabelle
  imports Main "HOL-Library.Word"
begin

unbundle bit_operations_syntax

section \<open>Data model of the SSD1306 driver\<close>

text \<open>
  The driver is C. Bytes (\<^verbatim>\<open>uint8_t\<close>) are 8-bit words, the values of an \<^verbatim>\<open>enum\<close>
  are C integers (so that the \<^verbatim>\<open>default\<close> branches of the source stay reachable),
  the display structure \<^verbatim>\<open>ssd1306_t\<close> is a record, and a function that receives the
  non-const pointer \<^verbatim>\<open>ssd1306_ptr\<close> returns the structure it leaves behind.
\<close>

type_synonym u8 = "8 word"
type_synonym u16 = "16 word"

definition SSD1306_PXL_WIDTH :: nat where "SSD1306_PXL_WIDTH = 128"
definition SSD1306_PXL_HEIGHT :: nat where "SSD1306_PXL_HEIGHT = 64"
definition SSD1306_BUFFER_SIZE :: nat where
  "SSD1306_BUFFER_SIZE = SSD1306_PXL_WIDTH * SSD1306_PXL_HEIGHT div 8"
definition SSD1306_NUM_PAGES :: nat where "SSD1306_NUM_PAGES = 8"
definition SSD1306_DATA_WRITE_BUFFER_SIZE :: nat where "SSD1306_DATA_WRITE_BUFFER_SIZE = 129"

definition SSD1306_CMD_CONTROL_BYTE :: u8 where "SSD1306_CMD_CONTROL_BYTE = 0x00"
definition SSD1306_DATA_CONTROL_BYTE :: u8 where "SSD1306_DATA_CONTROL_BYTE = 0x40"

text \<open>The command bytes the driver uses.\<close>

definition SSD1306_CMD_SET_MEMORY_ADDRESSING_MODE :: u8 where "SSD1306_CMD_SET_MEMORY_ADDRESSING_MODE = 0x20"
definition SSD1306_CMD_SET_COLUMN_ADDRESS :: u8 where "SSD1306_CMD_SET_COLUMN_ADDRESS = 0x21"
definition SSD1306_CMD_SET_PAGE_ADDRESS :: u8 where "SSD1306_CMD_SET_PAGE_ADDRESS = 0x22"
definition SSD1306_SUBCMD_MEM_ADDR_MODE_HAM :: u8 where "SSD1306_SUBCMD_MEM_ADDR_MODE_HAM = 0x00"
definition SSD1306_CMD_SEGMENT_REMAP_COL127_SEG0 :: u8 where "SSD1306_CMD_SEGMENT_REMAP_COL127_SEG0 = 0xA1"
definition SSD1306_CMD_SET_MULTIPLEX_RATIO :: u8 where "SSD1306_CMD_SET_MULTIPLEX_RATIO = 0xA8"
definition SSD1306_CMD_COM_SCAN_DIRECTION_REMAPPED :: u8 where "SSD1306_CMD_COM_SCAN_DIRECTION_REMAPPED = 0xC8"
definition SSD1306_CMD_SET_DISPLAY_OFFSET :: u8 where "SSD1306_CMD_SET_DISPLAY_OFFSET = 0xD3"
definition SSD1306_CMD_SET_COM_PINS_HW_CONFIG :: u8 where "SSD1306_CMD_SET_COM_PINS_HW_CONFIG = 0xDA"
definition SSD1306_CMD_SET_DIS_CLK_OSC_FREQ :: u8 where "SSD1306_CMD_SET_DIS_CLK_OSC_FREQ = 0xD5"
definition SSD1306_CMD_SET_PRECHARGE_PERIOD :: u8 where "SSD1306_CMD_SET_PRECHARGE_PERIOD = 0xD9"
definition SSD1306_CMD_SET_VCOMH_DESELECT_LEVEL :: u8 where "SSD1306_CMD_SET_VCOMH_DESELECT_LEVEL = 0xDB"
definition SSD1306_CMD_RIGHT_HORIZONTAL_SCROLL :: u8 where "SSD1306_CMD_RIGHT_HORIZONTAL_SCROLL = 0x26"
definition SSD1306_CMD_LEFT_HORIZONTAL_SCROLL :: u8 where "SSD1306_CMD_LEFT_HORIZONTAL_SCROLL = 0x27"
definition SSD1306_CMD_VERTICAL_RIGHT_HORIZONTAL_SCROLL :: u8 where "SSD1306_CMD_VERTICAL_RIGHT_HORIZONTAL_SCROLL = 0x29"
definition SSD1306_CMD_VERTICAL_LEFT_HORIZONTAL_SCROLL :: u8 where "SSD1306_CMD_VERTICAL_LEFT_HORIZONTAL_SCROLL = 0x2A"
definition SSD1306_CMD_DEACTIVATE_SCROLL :: u8 where "SSD1306_CMD_DEACTIVATE_SCROLL = 0x2E"
definition SSD1306_CMD_ACTIVATE_SCROLL :: u8 where "SSD1306_CMD_ACTIVATE_SCROLL = 0x2F"
definition SSD1306_CMD_SETCONTRAST :: u8 where "SSD1306_CMD_SETCONTRAST = 0x81"
definition SSD1306_CMD_CHARGE_PUMP_SETTING :: u8 where "SSD1306_CMD_CHARGE_PUMP_SETTING = 0x8D"
definition SSD1306_CMD_RESUMETORAM :: u8 where "SSD1306_CMD_RESUMETORAM = 0xA4"
definition SSD1306_CMD_NORMALDISPLAY :: u8 where "SSD1306_CMD_NORMALDISPLAY = 0xA6"
definition SSD1306_CMD_INVERTDISPLAY :: u8 where "SSD1306_CMD_INVERTDISPLAY = 0xA7"
definition SSD1306_CMD_DISPLAYOFF :: u8 where "SSD1306_CMD_DISPLAYOFF = 0xAE"
definition SSD1306_CMD_DISPLAYON :: u8 where "SSD1306_CMD_DISPLAYON = 0xAF"
definition SSD1306_SUBCMD_DISABLE_CHARGE_PUMP :: u8 where "SSD1306_SUBCMD_DISABLE_CHARGE_PUMP = 0x10"
definition SSD1306_SUBCMD_ENABLE_CHARGE_PUMP :: u8 where "SSD1306_SUBCMD_ENABLE_CHARGE_PUMP = 0x14"

datatype ssd1306_status_t =
  SSD1306_OK | SSD1306_NOINIT | SSD1306_WRONG_PARAMS | SSD1306_COMM_ERROR

text \<open>\<^verbatim>\<open>ssd1306_color_t\<close>: an enum of two values, held in a C integer.\<close>

definition SSD1306_COLOR_BLACK :: int where "SSD1306_COLOR_BLACK = 0"
definition SSD1306_COLOR_WHITE :: int where "SSD1306_COLOR_WHITE = 1"

text \<open>C's logical negation \<^verbatim>\<open>!color\<close>.\<close>

definition c_not :: "int \<Rightarrow> int" where
  "c_not v = (if v = 0 then 1 else 0)"

text \<open>\<^verbatim>\<open>ssd1306_scroll_t\<close>: enumerators numbered from 0 in declaration order.\<close>

definition RIGHT_HORIZONTAL_SCROLL :: int where "RIGHT_HORIZONTAL_SCROLL = 0"
definition LEFT_HORIZONTAL_SCROLL :: int where "LEFT_HORIZONTAL_SCROLL = 1"
definition VERTICAL_RIGHT_HORIZONTAL_SCROLL :: int where "VERTICAL_RIGHT_HORIZONTAL_SCROLL = 2"
definition VERTICAL_LEFT_HORIZONTAL_SCROLL :: int where "VERTICAL_LEFT_HORIZONTAL_SCROLL = 3"

record ssd1306_t =
  x_pos :: u8
  y_pos :: u8
  inverted :: bool
  initialized :: bool
  scrolling :: bool
  i2c_channel :: u8
  i2c_addr :: u8
  buffer :: "u8 list"

text \<open>
  The C array \<^verbatim>\<open>buffer[SSD1306_BUFFER_SIZE]\<close> has a fixed size; on the list model
  that is the invariant below.
\<close>

definition buffer_ok :: "ssd1306_t \<Rightarrow> bool" where
  "buffer_ok s = (length (buffer s) = SSD1306_BUFFER_SIZE)"

section \<open>The bus transport\<close>

text \<open>
  \<^verbatim>\<open>ssd1306_i2c_write\<close> is declared \<^verbatim>\<open>extern\<close> by the driver and supplied by a
  configuration file, so the driver takes it as a parameter. A frame is what one call hands
  to it: channel, address and the bytes \<^verbatim>\<open>data_ptr[0 .. data_size - 1]\<close>. The wire is
  the list of the frames handed over so far, oldest first; the status a call returns may
  depend on the frames before it and on its own frame.
\<close>

type_synonym i2c_frame = "u8 \<times> u8 \<times> u8 list"
type_synonym i2c_write_t = "i2c_frame list \<Rightarrow> i2c_frame \<Rightarrow> ssd1306_status_t"

definition i2c_call ::
  "i2c_write_t \<Rightarrow> i2c_frame list \<Rightarrow> u8 \<Rightarrow> u8 \<Rightarrow> u8 list \<Rightarrow> ssd1306_status_t \<times> i2c_frame list" where
  "i2c_call i2c wire channel addr bytes =
     (i2c wire (channel, addr, bytes), wire @ [(channel, addr, bytes)])"

text \<open>
  \<^verbatim>\<open>ssd1306_i2c_write\<close> of \<^verbatim>\<open>config/STM32/ssd1306_config.c\<close>; \<open>hal_ok\<close> says whether
  \<^verbatim>\<open>HAL_I2C_Master_Transmit\<close> (vendor code) returns \<^verbatim>\<open>HAL_OK\<close> for the frame.
\<close>

definition stm32_i2c_write :: "(i2c_frame list \<Rightarrow> i2c_frame \<Rightarrow> bool) \<Rightarrow> i2c_write_t" where
  "stm32_i2c_write hal_ok wire f =
     (case f of (channel, addr, bytes) \<Rightarrow>
        if channel = 0 then
          (if \<not> hal_ok wire f then SSD1306_COMM_ERROR else SSD1306_OK)
        else SSD1306_WRONG_PARAMS)"

section \<open>Private functions\<close>

definition ssd1306_cmd_write ::
  "i2c_write_t \<Rightarrow> ssd1306_t \<Rightarrow> i2c_frame list \<Rightarrow> u8 \<Rightarrow>
     ssd1306_status_t \<times> ssd1306_t \<times> i2c_frame list" where
  "ssd1306_cmd_write i2c s wire cmd =
     (if initialized s = False then (SSD1306_NOINIT, s, wire)
      else
        let cmd_list = [SSD1306_CMD_CONTROL_BYTE, cmd];
            (status, wire') = i2c_call i2c wire (i2c_channel s) (i2c_addr s) cmd_list
        in (status, s, wire'))"

definition ssd1306_cmd_write_multi ::
  "i2c_write_t \<Rightarrow> ssd1306_t \<Rightarrow> i2c_frame list \<Rightarrow> u8 list \<Rightarrow>
     ssd1306_status_t \<times> ssd1306_t \<times> i2c_frame list" where
  "ssd1306_cmd_write_multi i2c s wire cmd_list =
     (if initialized s = False then (SSD1306_NOINIT, s, wire)
      else
        let (status, wire') = i2c_call i2c wire (i2c_channel s) (i2c_addr s) cmd_list
        in (status, s, wire'))"

text \<open>
  \<^verbatim>\<open>data_ptr\<close> and \<^verbatim>\<open>data_size\<close> are one list. The scratch array starts with the data
  control byte, the payload is copied behind it, and \<^verbatim>\<open>data_size + 1\<close> bytes of it are
  sent: the control byte followed by the payload.
\<close>

definition ssd1306_data_write ::
  "i2c_write_t \<Rightarrow> ssd1306_t \<Rightarrow> i2c_frame list \<Rightarrow> u8 list \<Rightarrow>
     ssd1306_status_t \<times> ssd1306_t \<times> i2c_frame list" where
  "ssd1306_data_write i2c s wire data =
     (if initialized s = False then (SSD1306_NOINIT, s, wire)
      else if length data \<ge> SSD1306_DATA_WRITE_BUFFER_SIZE then (SSD1306_WRONG_PARAMS, s, wire)
      else
        let data_array = SSD1306_DATA_CONTROL_BYTE # data;
            (status, wire') = i2c_call i2c wire (i2c_channel s) (i2c_addr s) data_array
        in (status, s, wire'))"

section \<open>Fundamental commands\<close>

definition ssd1306_display_on ::
  "i2c_write_t \<Rightarrow> ssd1306_t \<Rightarrow> i2c_frame list \<Rightarrow> ssd1306_status_t \<times> ssd1306_t \<times> i2c_frame list" where
  "ssd1306_display_on i2c s wire =
     (let cmd_list = [SSD1306_CMD_CONTROL_BYTE, SSD1306_CMD_CHARGE_PUMP_SETTING,
                      SSD1306_SUBCMD_ENABLE_CHARGE_PUMP, SSD1306_CMD_DISPLAYON];
          (status, s1, wire1) = ssd1306_cmd_write_multi i2c s wire cmd_list
      in if status \<noteq> SSD1306_OK then (status, s1, wire1)
         else (SSD1306_OK, s1, wire1))"

definition ssd1306_display_off ::
  "i2c_write_t \<Rightarrow> ssd1306_t \<Rightarrow> i2c_frame list \<Rightarrow> ssd1306_status_t \<times> ssd1306_t \<times> i2c_frame list" where
  "ssd1306_display_off i2c s wire =
     (let cmd_list = [SSD1306_CMD_CONTROL_BYTE, SSD1306_CMD_CHARGE_PUMP_SETTING,
                      SSD1306_SUBCMD_DISABLE_CHARGE_PUMP, SSD1306_CMD_DISPLAYOFF];
          (status, s1, wire1) = ssd1306_cmd_write_multi i2c s wire cmd_list
      in if status \<noteq> SSD1306_OK then (status, s1, wire1)
         else (SSD1306_OK, s1, wire1))"

definition ssd1306_set_contrast ::
  "i2c_write_t \<Rightarrow> ssd1306_t \<Rightarrow> i2c_frame list \<Rightarrow> u8 \<Rightarrow>
     ssd1306_status_t \<times> ssd1306_t \<times> i2c_frame list" where
  "ssd1306_set_contrast i2c s wire contrast_value =
     (let cmd_list = [SSD1306_CMD_CONTROL_BYTE, SSD1306_CMD_SETCONTRAST, contrast_value];
          (status, s1, wire1) = ssd1306_cmd_write_multi i2c s wire cmd_list
      in if status \<noteq> SSD1306_OK then (status, s1, wire1)
         else (SSD1306_OK, s1, wire1))"

definition ssd1306_set_inversion ::
  "i2c_write_t \<Rightarrow> ssd1306_t \<Rightarrow> i2c_frame list \<Rightarrow> bool \<Rightarrow>
     ssd1306_status_t \<times> ssd1306_t \<times> i2c_frame list" where
  "ssd1306_set_inversion i2c s wire is_inverted =
     (let cmd_list = [SSD1306_CMD_CONTROL_BYTE,
                      if is_inverted then SSD1306_CMD_INVERTDISPLAY else SSD1306_CMD_NORMALDISPLAY];
          (status, s1, wire1) = ssd1306_cmd_write_multi i2c s wire cmd_list
      in if status \<noteq> SSD1306_OK then (status, s1, wire1)
         else (SSD1306_OK, s1\<lparr>inverted := is_inverted\<rparr>, wire1))"

section \<open>Scrolling\<close>

definition ssd1306_set_scroll_status ::
  "i2c_write_t \<Rightarrow> ssd1306_t \<Rightarrow> i2c_frame list \<Rightarrow> bool \<Rightarrow>
     ssd1306_status_t \<times> ssd1306_t \<times> i2c_frame list" where
  "ssd1306_set_scroll_status i2c s wire is_scrolling =
     (let cmd_list = [SSD1306_CMD_CONTROL_BYTE,
                      if is_scrolling then SSD1306_CMD_ACTIVATE_SCROLL else SSD1306_CMD_DEACTIVATE_SCROLL];
          (status, s1, wire1) = ssd1306_cmd_write_multi i2c s wire cmd_list
      in if status \<noteq> SSD1306_OK then (status, s1, wire1)
         else (SSD1306_OK, s1\<lparr>scrolling := is_scrolling\<rparr>, wire1))"

text \<open>
  The second \<^verbatim>\<open>switch\<close> of \<^verbatim>\<open>ssd1306_scroll\<close>: two dummy bytes for the horizontal
  types, the fixed vertical offset for the other two, each sent with
  \<^verbatim>\<open>ssd1306_cmd_write\<close> and returning at the first status that is not OK.
\<close>

definition scroll_tail ::
  "i2c_write_t \<Rightarrow> ssd1306_t \<Rightarrow> i2c_frame list \<Rightarrow> int \<Rightarrow>
     ssd1306_status_t \<times> ssd1306_t \<times> i2c_frame list" where
  "scroll_tail i2c s wire type =
     (if type = RIGHT_HORIZONTAL_SCROLL \<or> type = LEFT_HORIZONTAL_SCROLL then
        (let (status, s1, wire1) = ssd1306_cmd_write i2c s wire 0x00
         in if status \<noteq> SSD1306_OK then (status, s1, wire1)
            else ssd1306_cmd_write i2c s1 wire1 0xFF)
      else if type = VERTICAL_RIGHT_HORIZONTAL_SCROLL \<or> type = VERTICAL_LEFT_HORIZONTAL_SCROLL then
        ssd1306_cmd_write i2c s wire 0x01
      else (SSD1306_OK, s, wire))"

text \<open>The page and interval enums are stored into bytes of the command list.\<close>

definition ssd1306_scroll ::
  "i2c_write_t \<Rightarrow> ssd1306_t \<Rightarrow> i2c_frame list \<Rightarrow> int \<Rightarrow> int \<Rightarrow> int \<Rightarrow> int \<Rightarrow>
     ssd1306_status_t \<times> ssd1306_t \<times> i2c_frame list" where
  "ssd1306_scroll i2c s wire type start_page end_page interval =
     (if type \<noteq> RIGHT_HORIZONTAL_SCROLL \<and> type \<noteq> LEFT_HORIZONTAL_SCROLL \<and>
         type \<noteq> VERTICAL_RIGHT_HORIZONTAL_SCROLL \<and> type \<noteq> VERTICAL_LEFT_HORIZONTAL_SCROLL
      then (SSD1306_WRONG_PARAMS, s, wire)
      else
        let scroll_cmd :: u8 =
              (if type = RIGHT_HORIZONTAL_SCROLL then SSD1306_CMD_RIGHT_HORIZONTAL_SCROLL
               else if type = LEFT_HORIZONTAL_SCROLL then SSD1306_CMD_LEFT_HORIZONTAL_SCROLL
               else if type = VERTICAL_RIGHT_HORIZONTAL_SCROLL
                 then SSD1306_CMD_VERTICAL_RIGHT_HORIZONTAL_SCROLL
               else SSD1306_CMD_VERTICAL_LEFT_HORIZONTAL_SCROLL);
            cmd_list = [SSD1306_CMD_CONTROL_BYTE, scroll_cmd, 0x00,
                        word_of_int start_page, word_of_int interval, word_of_int end_page];
            (status, s1, wire1) = ssd1306_cmd_write_multi i2c s wire cmd_list
        in if status \<noteq> SSD1306_OK then (status, s1, wire1)
           else
             let (status2, s2, wire2) = scroll_tail i2c s1 wire1 type
             in if status2 \<noteq> SSD1306_OK then (status2, s2, wire2)
                else ssd1306_set_scroll_status i2c s2 wire2 True)"

section \<open>Drawing into the buffer\<close>

definition ssd1306_goto_xy :: "ssd1306_t \<Rightarrow> u8 \<Rightarrow> u8 \<Rightarrow> ssd1306_status_t \<times> ssd1306_t" where
  "ssd1306_goto_xy s x y =
     (if unat x \<ge> SSD1306_PXL_WIDTH \<or> unat y \<ge> SSD1306_PXL_HEIGHT then (SSD1306_WRONG_PARAMS, s)
      else (SSD1306_OK, s\<lparr>x_pos := x, y_pos := y\<rparr>))"

text \<open>\<^verbatim>\<open>memset(buffer, c, sizeof(buffer))\<close>: every one of the bytes of the array is \<open>c\<close>.\<close>

definition memset_buffer :: "ssd1306_t \<Rightarrow> u8 \<Rightarrow> ssd1306_t" where
  "memset_buffer s c = s\<lparr>buffer := replicate SSD1306_BUFFER_SIZE c\<rparr>"

definition ssd1306_draw_fill :: "ssd1306_t \<Rightarrow> int \<Rightarrow> ssd1306_status_t \<times> ssd1306_t" where
  "ssd1306_draw_fill s color =
     (if color = SSD1306_COLOR_BLACK then
        (SSD1306_OK, memset_buffer s (if inverted s then 0xFF else 0x00))
      else if color = SSD1306_COLOR_WHITE then
        (SSD1306_OK, memset_buffer s (if inverted s then 0x00 else 0xFF))
      else (SSD1306_WRONG_PARAMS, s))"

text \<open>
  The byte of pixel \<open>(x, y)\<close> is \<^verbatim>\<open>x + (y >> 3) * SSD1306_PXL_WIDTH\<close>, computed on C
  integers, and its bit is \<^verbatim>\<open>y & 0x7\<close>; the result of \<^verbatim>\<open>|=\<close> and \<^verbatim>\<open>&=\<close> is stored
  back into a byte.
\<close>

definition pixel_index :: "u8 \<Rightarrow> u8 \<Rightarrow> nat" where
  "pixel_index x y = unat x + unat (drop_bit 3 y) * SSD1306_PXL_WIDTH"

definition pixel_mask :: "u8 \<Rightarrow> u8" where
  "pixel_mask y = push_bit (unat (y AND 0x7)) 1"

definition ssd1306_draw_pixel ::
  "ssd1306_t \<Rightarrow> u8 \<Rightarrow> u8 \<Rightarrow> int \<Rightarrow> ssd1306_status_t \<times> ssd1306_t" where
  "ssd1306_draw_pixel s x y color =
     (if unat x \<ge> SSD1306_PXL_WIDTH \<or> unat y \<ge> SSD1306_PXL_HEIGHT then (SSD1306_OK, s)
      else
        let pxl_color = (if inverted s then c_not color else color);
            i = pixel_index x y
        in if pxl_color = SSD1306_COLOR_WHITE then
             (SSD1306_OK, s\<lparr>buffer := (buffer s)[i := (buffer s ! i) OR pixel_mask y]\<rparr>)
           else if pxl_color = SSD1306_COLOR_BLACK then
             (SSD1306_OK, s\<lparr>buffer := (buffer s)[i := (buffer s ! i) AND NOT (pixel_mask y)]\<rparr>)
           else (SSD1306_WRONG_PARAMS, s))"

definition ssd1306_clear_buffer :: "ssd1306_t \<Rightarrow> ssd1306_status_t \<times> ssd1306_t" where
  "ssd1306_clear_buffer s = (SSD1306_OK, memset_buffer s 0)"

section \<open>Text\<close>

text \<open>
  The font tables and \<^verbatim>\<open>get_font_ptr\<close> are not part of the driver file; the driver
  takes \<open>get_font_ptr\<close> as a parameter, \<open>None\<close> being the NULL pointer it returns for an
  invalid font name. \<^verbatim>\<open>font_map\<close> is a \<^verbatim>\<open>void\<close> pointer that the driver reads as an
  array of bytes or of half-words: the two readings are the two maps of the record.
\<close>

record ssd1306_font_t =
  font_width :: u8
  font_height :: u8
  font_map8 :: "int \<Rightarrow> u8"
  font_map16 :: "int \<Rightarrow> u16"

type_synonym get_font_ptr_t = "int \<Rightarrow> ssd1306_font_t option"

text \<open>The row \<open>i\<close> of the glyph of \<open>ch\<close>; \<open>ch\<close> is an unsigned \<^verbatim>\<open>char\<close>.\<close>

definition char_line_of :: "ssd1306_font_t \<Rightarrow> char \<Rightarrow> nat \<Rightarrow> u16" where
  "char_line_of font ch i =
     (let idx = (of_char ch - 32) * uint (font_height font) + int i
      in if unat (font_width font) \<le> 8 then push_bit 8 (ucast (font_map8 font idx))
         else font_map16 font idx)"

text \<open>The loop over the columns \<open>j\<close> of one row, the columns still to draw as a list.\<close>

fun draw_char_row ::
  "ssd1306_t \<Rightarrow> u16 \<Rightarrow> nat \<Rightarrow> int \<Rightarrow> nat list \<Rightarrow> ssd1306_status_t \<times> ssd1306_t" where
  "draw_char_row s char_line i color [] = (SSD1306_OK, s)"
| "draw_char_row s char_line i color (j # js) =
     (let pixel_color =
            (if (push_bit j (uint char_line)) AND 0x8000 \<noteq> 0 then color else c_not color);
          (status, s') =
            ssd1306_draw_pixel s (x_pos s + of_nat j) (y_pos s + of_nat i) pixel_color
      in if status \<noteq> SSD1306_OK then (status, s')
         else draw_char_row s' char_line i color js)"

text \<open>The loop over the rows \<open>i\<close>.\<close>

fun draw_char_rows ::
  "ssd1306_font_t \<Rightarrow> ssd1306_t \<Rightarrow> char \<Rightarrow> int \<Rightarrow> nat list \<Rightarrow> ssd1306_status_t \<times> ssd1306_t" where
  "draw_char_rows font s ch color [] = (SSD1306_OK, s)"
| "draw_char_rows font s ch color (i # rows) =
     (let (status, s') =
            draw_char_row s (char_line_of font ch i) i color [0..<unat (font_width font)]
      in if status \<noteq> SSD1306_OK then (status, s')
         else draw_char_rows font s' ch color rows)"

text \<open>A NULL font is dereferenced by the source: no defined result, \<open>None\<close>.\<close>

definition ssd1306_draw_char ::
  "get_font_ptr_t \<Rightarrow> ssd1306_t \<Rightarrow> char \<Rightarrow> int \<Rightarrow> int \<Rightarrow> (ssd1306_status_t \<times> ssd1306_t) option" where
  "ssd1306_draw_char get_font_ptr s ch font_name color =
     (case get_font_ptr font_name of
        None \<Rightarrow> None
      | Some font \<Rightarrow>
          let (status, s') = draw_char_rows font s ch color [0..<unat (font_height font)]
          in if status \<noteq> SSD1306_OK then Some (status, s')
             else Some (SSD1306_OK, s'\<lparr>x_pos := x_pos s' + font_width font\<rparr>))"

text \<open>\<^verbatim>\<open>str\<close> and \<^verbatim>\<open>str_len\<close> are one list: the characters \<^verbatim>\<open>str[0 .. str_len - 1]\<close>.\<close>

fun ssd1306_draw_str ::
  "get_font_ptr_t \<Rightarrow> ssd1306_t \<Rightarrow> string \<Rightarrow> int \<Rightarrow> int \<Rightarrow> (ssd1306_status_t \<times> ssd1306_t) option" where
  "ssd1306_draw_str get_font_ptr s [] font_name color = Some (SSD1306_OK, s)"
| "ssd1306_draw_str get_font_ptr s (ch # str) font_name color =
     (case ssd1306_draw_char get_font_ptr s ch font_name color of
        None \<Rightarrow> None
      | Some (status, s') \<Rightarrow>
          if status \<noteq> SSD1306_OK then Some (status, s')
          else ssd1306_draw_str get_font_ptr s' str font_name color)"

subsection \<open>Integers\<close>

definition ABS :: "int \<Rightarrow> int" where
  "ABS x = (if x > 0 then x else - x)"

definition digit_char :: "nat \<Rightarrow> char" where
  "digit_char rem =
     (if rem > 9 then char_of ((rem - 10) + of_char CHR ''A'') else char_of (rem + of_char CHR ''0''))"

text \<open>
  The digit loop \<^verbatim>\<open>while (num_abs)\<close>: \<open>str_buf\<close> holds the characters written so far,
  \<^verbatim>\<open>i\<close> is its length. \<open>num_abs\<close> is positive when the loop is entered, so C's division
  and remainder are those of the naturals; dividing by a zero base has no defined result.
\<close>

partial_function (option) draw_int_digits :: "nat \<Rightarrow> nat \<Rightarrow> string \<Rightarrow> string option" where
  "draw_int_digits num_abs base str_buf =
     (if num_abs = 0 then Some str_buf
      else if base = 0 then None
      else draw_int_digits (num_abs div base) base (str_buf @ [digit_char (num_abs mod base)]))"

declare draw_int_digits.simps [code]

text \<open>The loop that inverts the buffer by swapping characters.\<close>

function draw_int_swap :: "string \<Rightarrow> nat \<Rightarrow> nat \<Rightarrow> string" where
  "draw_int_swap str_buf start_idx end_idx =
     (if start_idx < end_idx then
        draw_int_swap (str_buf[start_idx := str_buf ! end_idx, end_idx := str_buf ! start_idx])
          (start_idx + 1) (end_idx - 1)
      else str_buf)"
  by pat_completeness auto
termination
  by (relation "measure (\<lambda>(str_buf, start_idx, end_idx). end_idx - start_idx)") auto

declare draw_int_swap.simps [simp del]

text \<open>
  The contents of \<^verbatim>\<open>str_buf\<close> before its terminator when \<^verbatim>\<open>ssd1306_draw_str\<close> is
  called. \<open>num\<close> is the value of the \<^verbatim>\<open>int32_t\<close> argument; negating the least one
  overflows in \<^verbatim>\<open>ABS\<close>, which has no defined result.
\<close>

definition draw_int_str_buf :: "32 word \<Rightarrow> u8 \<Rightarrow> string option" where
  "draw_int_str_buf num base =
     (if sint num = 0 then Some ''0''
      else if sint num = - (2 ^ 31) then None
      else
        let num_abs = ABS (sint num);
            is_negative = (sint num < 0 \<and> base = 10)
        in case draw_int_digits (nat num_abs) (unat base) [] of
             None \<Rightarrow> None
           | Some digits \<Rightarrow>
               let str_buf = (if is_negative then digits @ ''-'' else digits);
                   i = length str_buf
               in Some (draw_int_swap str_buf 0 (i - 1)))"

text \<open>\<^verbatim>\<open>strlen\<close>: the characters before the first NUL.\<close>

definition c_strlen_prefix :: "string \<Rightarrow> string" where
  "c_strlen_prefix str_buf = takeWhile (\<lambda>c. c \<noteq> CHR 0x00) str_buf"

definition ssd1306_draw_int ::
  "get_font_ptr_t \<Rightarrow> ssd1306_t \<Rightarrow> 32 word \<Rightarrow> u8 \<Rightarrow> int \<Rightarrow> int \<Rightarrow>
     (ssd1306_status_t \<times> ssd1306_t) option" where
  "ssd1306_draw_int get_font_ptr s num base font_name color =
     (if base < 2 \<or> base > 32 then Some (SSD1306_WRONG_PARAMS, s)
      else case draw_int_str_buf num base of
             None \<Rightarrow> None
           | Some str_buf \<Rightarrow>
               ssd1306_draw_str get_font_ptr s (c_strlen_prefix str_buf) font_name color)"

section \<open>Lines\<close>

text \<open>
  The loop \<^verbatim>\<open>while (true)\<close> of Bresenham's algorithm. \<open>x0\<close> and \<open>y0\<close> are bytes and
  wrap around when stepped; the error terms are C integers far from their bounds.
  A run that never reaches the end point has no result.
\<close>

partial_function (option) draw_line_loop ::
  "ssd1306_t \<Rightarrow> u8 \<Rightarrow> u8 \<Rightarrow> u8 \<Rightarrow> u8 \<Rightarrow> int \<Rightarrow> int \<Rightarrow> int \<Rightarrow> int \<Rightarrow> int \<Rightarrow> int \<Rightarrow>
     (ssd1306_status_t \<times> ssd1306_t) option" where
  "draw_line_loop s x0 y0 x1 y1 color dx sx dy sy err =
     (case ssd1306_draw_pixel s x0 y0 color of
        (status, s') \<Rightarrow>
          if status \<noteq> SSD1306_OK then Some (status, s')
          else if x0 = x1 \<and> y0 = y1 then Some (SSD1306_OK, s')
          else
            let e2 = 2 * err;
                err_a = (if e2 \<ge> dy then err + dy else err);
                x0_a = (if e2 \<ge> dy then x0 + word_of_int sx else x0);
                err_b = (if e2 \<le> dx then err_a + dx else err_a);
                y0_b = (if e2 \<le> dx then y0 + word_of_int sy else y0)
            in draw_line_loop s' x0_a y0_b x1 y1 color dx sx dy sy err_b)"

declare draw_line_loop.simps [code]

definition ssd1306_draw_line ::
  "ssd1306_t \<Rightarrow> u8 \<Rightarrow> u8 \<Rightarrow> u8 \<Rightarrow> u8 \<Rightarrow> int \<Rightarrow> (ssd1306_status_t \<times> ssd1306_t) option" where
  "ssd1306_draw_line s x0 y0 x1 y1 color =
     (let dx = ABS (uint x1 - uint x0);
          sx = (if x0 < x1 then 1 else - 1);
          dy = - ABS (uint y1 - uint y0);
          sy = (if y0 < y1 then 1 else - 1);
          err = dx + dy
      in draw_line_loop s x0 y0 x1 y1 color dx sx dy sy err)"

section \<open>Shapes\<close>

text \<open>
  The pattern \<^verbatim>\<open>status = f(...); if (status != SSD1306_OK) return status;\<close> on results
  that may be undefined: go on with the session \<open>f\<close> left only when its status is OK.
\<close>

definition then_ok ::
  "(ssd1306_status_t \<times> ssd1306_t) option \<Rightarrow> (ssd1306_t \<Rightarrow> (ssd1306_status_t \<times> ssd1306_t) option) \<Rightarrow>
     (ssd1306_status_t \<times> ssd1306_t) option" where
  "then_ok r k =
     (case r of
        None \<Rightarrow> None
      | Some (status, s') \<Rightarrow> if status \<noteq> SSD1306_OK then Some (status, s') else k s')"

text \<open>The sums \<^verbatim>\<open>x + w\<close> and \<^verbatim>\<open>y + h\<close> are passed as bytes, so they wrap around.\<close>

definition ssd1306_draw_rect ::
  "ssd1306_t \<Rightarrow> u8 \<Rightarrow> u8 \<Rightarrow> u8 \<Rightarrow> u8 \<Rightarrow> int \<Rightarrow> (ssd1306_status_t \<times> ssd1306_t) option" where
  "ssd1306_draw_rect s x y w h color =
     then_ok (ssd1306_draw_line s x y (x + w) y color) (\<lambda>s1.
     then_ok (ssd1306_draw_line s1 x (y + h) (x + w) (y + h) color) (\<lambda>s2.
     then_ok (ssd1306_draw_line s2 x y x (y + h) color) (\<lambda>s3.
     then_ok (ssd1306_draw_line s3 (x + w) y (x + w) (y + h) color) (\<lambda>s4.
     Some (SSD1306_OK, s4)))))"

text \<open>
  The loop \<^verbatim>\<open>for (uint8_t i = 0; i <= h; i++)\<close>: the counter is a byte, so for
  \<open>h = 255\<close> the test never fails and the loop has no result.
\<close>

partial_function (option) draw_filled_rect_loop ::
  "ssd1306_t \<Rightarrow> u8 \<Rightarrow> u8 \<Rightarrow> u8 \<Rightarrow> u8 \<Rightarrow> int \<Rightarrow> u8 \<Rightarrow> (ssd1306_status_t \<times> ssd1306_t) option" where
  "draw_filled_rect_loop s x y w h color i =
     (if i \<le> h then
        (case ssd1306_draw_line s x (y + i) (x + w) (y + i) color of
           None \<Rightarrow> None
         | Some (status, s') \<Rightarrow>
             if status \<noteq> SSD1306_OK then Some (status, s')
             else draw_filled_rect_loop s' x y w h color (i + 1))
      else Some (SSD1306_OK, s))"

declare draw_filled_rect_loop.simps [code]

definition ssd1306_draw_filled_rect ::
  "ssd1306_t \<Rightarrow> u8 \<Rightarrow> u8 \<Rightarrow> u8 \<Rightarrow> u8 \<Rightarrow> int \<Rightarrow> (ssd1306_status_t \<times> ssd1306_t) option" where
  "ssd1306_draw_filled_rect s x y w h color = draw_filled_rect_loop s x y w h color 0"

text \<open>
  The \<^verbatim>\<open>do ... while (x < 0)\<close> loop of the circle: \<open>xc\<close>, \<open>yc\<close>, \<open>x\<close>, \<open>y\<close> and \<open>err\<close>
  are C integers, the coordinates passed to \<^verbatim>\<open>ssd1306_draw_pixel\<close> are cut to bytes.
  \<^verbatim>\<open>err += ++x*2+1\<close> increments \<open>x\<close> first.
\<close>

partial_function (option) draw_circle_loop ::
  "ssd1306_t \<Rightarrow> int \<Rightarrow> int \<Rightarrow> int \<Rightarrow> int \<Rightarrow> int \<Rightarrow> int \<Rightarrow> (ssd1306_status_t \<times> ssd1306_t) option" where
  "draw_circle_loop s xc yc color x y err =
     (case ssd1306_draw_pixel s (word_of_int (xc - x)) (word_of_int (yc + y)) color of
        (st1, s1) \<Rightarrow> if st1 \<noteq> SSD1306_OK then Some (st1, s1) else
     (case ssd1306_draw_pixel s1 (word_of_int (xc - y)) (word_of_int (yc - x)) color of
        (st2, s2) \<Rightarrow> if st2 \<noteq> SSD1306_OK then Some (st2, s2) else
     (case ssd1306_draw_pixel s2 (word_of_int (xc + x)) (word_of_int (yc - y)) color of
        (st3, s3) \<Rightarrow> if st3 \<noteq> SSD1306_OK then Some (st3, s3) else
     (case ssd1306_draw_pixel s3 (word_of_int (xc + y)) (word_of_int (yc + x)) color of
        (st4, s4) \<Rightarrow> if st4 \<noteq> SSD1306_OK then Some (st4, s4) else
          let rc = err;
              x_a = (if rc > x then x + 1 else x);
              err_a = (if rc > x then err + (x_a * 2 + 1) else err);
              y_b = (if rc \<le> y then y + 1 else y);
              err_b = (if rc \<le> y then err_a + (y_b * 2 + 1) else err_a)
          in if x_a < 0 then draw_circle_loop s4 xc yc color x_a y_b err_b
             else Some (SSD1306_OK, s4)))))"

declare draw_circle_loop.simps [code]

definition ssd1306_draw_circle ::
  "ssd1306_t \<Rightarrow> u8 \<Rightarrow> u8 \<Rightarrow> u16 \<Rightarrow> int \<Rightarrow> (ssd1306_status_t \<times> ssd1306_t) option" where
  "ssd1306_draw_circle s x0 y0 r color =
     (let xc = uint x0; yc = uint y0; rc = uint r
      in draw_circle_loop s xc yc color (- rc) 0 (2 - 2 * rc))"

partial_function (option) draw_filled_circle_loop ::
  "ssd1306_t \<Rightarrow> int \<Rightarrow> int \<Rightarrow> int \<Rightarrow> int \<Rightarrow> int \<Rightarrow> int \<Rightarrow> (ssd1306_status_t \<times> ssd1306_t) option" where
  "draw_filled_circle_loop s xc yc color x y err =
     (case ssd1306_draw_line s (word_of_int (xc - x)) (word_of_int (yc + y))
             (word_of_int (xc + x)) (word_of_int (yc - y)) color of
        None \<Rightarrow> None
      | Some (st1, s1) \<Rightarrow> if st1 \<noteq> SSD1306_OK then Some (st1, s1) else
     (case ssd1306_draw_line s1 (word_of_int (xc - y)) (word_of_int (yc - x))
             (word_of_int (xc + y)) (word_of_int (yc + x)) color of
        None \<Rightarrow> None
      | Some (st2, s2) \<Rightarrow> if st2 \<noteq> SSD1306_OK then Some (st2, s2) else
     (case ssd1306_draw_line s2 (word_of_int (xc + x)) (word_of_int (yc - y))
             (word_of_int (xc - x)) (word_of_int (yc + y)) color of
        None \<Rightarrow> None
      | Some (st3, s3) \<Rightarrow> if st3 \<noteq> SSD1306_OK then Some (st3, s3) else
     (case ssd1306_draw_line s3 (word_of_int (xc + y)) (word_of_int (yc + x))
             (word_of_int (xc - y)) (word_of_int (yc - x)) color of
        None \<Rightarrow> None
      | Some (st4, s4) \<Rightarrow> if st4 \<noteq> SSD1306_OK then Some (st4, s4) else
          let rc = err;
              x_a = (if rc > x then x + 1 else x);
              err_a = (if rc > x then err + (x_a * 2 + 1) else err);
              y_b = (if rc \<le> y then y + 1 else y);
              err_b = (if rc \<le> y then err_a + (y_b * 2 + 1) else err_a)
          in if x_a < 0 then draw_filled_circle_loop s4 xc yc color x_a y_b err_b
             else Some (SSD1306_OK, s4)))))"

declare draw_filled_circle_loop.simps [code]

definition ssd1306_draw_filled_circle ::
  "ssd1306_t \<Rightarrow> u8 \<Rightarrow> u8 \<Rightarrow> u16 \<Rightarrow> int \<Rightarrow> (ssd1306_status_t \<times> ssd1306_t) option" where
  "ssd1306_draw_filled_circle s x0 y0 r color =
     (let xc = uint x0; yc = uint y0; rc = uint r
      in draw_filled_circle_loop s xc yc color (- rc) 0 (2 - 2 * rc))"

definition ssd1306_draw_triangle ::
  "ssd1306_t \<Rightarrow> u8 \<Rightarrow> u8 \<Rightarrow> u8 \<Rightarrow> u8 \<Rightarrow> u8 \<Rightarrow> u8 \<Rightarrow> int \<Rightarrow> (ssd1306_status_t \<times> ssd1306_t) option" where
  "ssd1306_draw_triangle s x1 y1 x2 y2 x3 y3 color =
     then_ok (ssd1306_draw_line s x1 y1 x2 y2 color) (\<lambda>s1.
     then_ok (ssd1306_draw_line s1 x2 y2 x3 y3 color) (\<lambda>s2.
     then_ok (ssd1306_draw_line s2 x3 y3 x1 y1 color) (\<lambda>s3.
     Some (SSD1306_OK, s3))))"

text \<open>
  The sweep of the filled triangle, one round for each value of \<^verbatim>\<open>curpixel\<close> still to
  come. \<open>x\<close>, \<open>y\<close> and \<open>num\<close> are 16-bit integers that stay far from their bounds; \<open>x\<close> and
  \<open>y\<close> are cut to bytes when passed to \<^verbatim>\<open>ssd1306_draw_line\<close>.
\<close>

fun draw_filled_triangle_loop ::
  "ssd1306_t \<Rightarrow> u8 \<Rightarrow> u8 \<Rightarrow> int \<Rightarrow> int \<Rightarrow> int \<Rightarrow> int \<Rightarrow> int \<Rightarrow> int \<Rightarrow> int \<Rightarrow> int \<Rightarrow> int \<Rightarrow> int \<Rightarrow>
     nat list \<Rightarrow> (ssd1306_status_t \<times> ssd1306_t) option" where
  "draw_filled_triangle_loop s x3 y3 color xinc1 xinc2 yinc1 yinc2 den numadd x y num [] =
     Some (SSD1306_OK, s)"
| "draw_filled_triangle_loop s x3 y3 color xinc1 xinc2 yinc1 yinc2 den numadd x y num
     (curpixel # rest) =
     (case ssd1306_draw_line s (word_of_int x) (word_of_int y) x3 y3 color of
        None \<Rightarrow> None
      | Some (status, s') \<Rightarrow>
          if status \<noteq> SSD1306_OK then Some (status, s')
          else
            let num_a = num + numadd;
                num_b = (if num_a \<ge> den then num_a - den else num_a);
                x_b = (if num_a \<ge> den then x + xinc1 else x);
                y_b = (if num_a \<ge> den then y + yinc1 else y)
            in draw_filled_triangle_loop s' x3 y3 color xinc1 xinc2 yinc1 yinc2 den numadd
                 (x_b + xinc2) (y_b + yinc2) num_b rest)"

definition ssd1306_draw_filled_triangle ::
  "ssd1306_t \<Rightarrow> u8 \<Rightarrow> u8 \<Rightarrow> u8 \<Rightarrow> u8 \<Rightarrow> u8 \<Rightarrow> u8 \<Rightarrow> int \<Rightarrow> (ssd1306_status_t \<times> ssd1306_t) option" where
  "ssd1306_draw_filled_triangle s x1 y1 x2 y2 x3 y3 color =
     (let deltax = ABS (uint x2 - uint x1);
          deltay = ABS (uint y2 - uint y1);
          x = uint x1;
          y = uint y1;
          xinc = (if x2 \<ge> x1 then 1 else - 1);
          yinc = (if y2 \<ge> y1 then 1 else - 1);
          xinc1 = (if deltax \<ge> deltay then 0 else xinc);
          xinc2 = (if deltax \<ge> deltay then xinc else 0);
          yinc1 = (if deltax \<ge> deltay then yinc else 0);
          yinc2 = (if deltax \<ge> deltay then 0 else yinc);
          den = (if deltax \<ge> deltay then deltax else deltay);
          num = (if deltax \<ge> deltay then deltax div 2 else deltay div 2);
          numadd = (if deltax \<ge> deltay then deltay else deltax);
          numpixels = (if deltax \<ge> deltay then deltax else deltay)
      in draw_filled_triangle_loop s x3 y3 color xinc1 xinc2 yinc1 yinc2 den numadd x y num
           [0..<nat numpixels + 1])"

subsection \<open>Bitmaps\<close>

text \<open>
  The bitmap is the list of its bytes; reading past its end has no defined result.
  \<open>byte\<close> is the byte being shifted, the columns \<open>i\<close> still to come are a list.
\<close>

fun draw_bitmap_row ::
  "ssd1306_t \<Rightarrow> u8 \<Rightarrow> u8 \<Rightarrow> u8 list \<Rightarrow> nat \<Rightarrow> nat \<Rightarrow> int \<Rightarrow> u8 \<Rightarrow> nat list \<Rightarrow>
     (ssd1306_status_t \<times> ssd1306_t \<times> u8) option" where
  "draw_bitmap_row s x y bitmap byte_width j color byte [] = Some (SSD1306_OK, s, byte)"
| "draw_bitmap_row s x y bitmap byte_width j color byte (i # cols) =
     (if i mod 8 = 0 \<and> j * byte_width + i div 8 \<ge> length bitmap then None
      else
        let byte_a = (if i mod 8 \<noteq> 0 then push_bit 1 byte
                      else bitmap ! (j * byte_width + i div 8))
        in if byte_a AND 0x80 \<noteq> 0 then
             (case ssd1306_draw_pixel s (x + of_nat i) y color of
                (status, s') \<Rightarrow>
                  if status \<noteq> SSD1306_OK then Some (status, s', byte_a)
                  else draw_bitmap_row s' x y bitmap byte_width j color byte_a cols)
           else draw_bitmap_row s x y bitmap byte_width j color byte_a cols)"

fun draw_bitmap_rows ::
  "ssd1306_t \<Rightarrow> u8 \<Rightarrow> u8 \<Rightarrow> u8 list \<Rightarrow> nat \<Rightarrow> u8 \<Rightarrow> int \<Rightarrow> u8 \<Rightarrow> nat list \<Rightarrow>
     (ssd1306_status_t \<times> ssd1306_t) option" where
  "draw_bitmap_rows s x y bitmap byte_width w color byte [] = Some (SSD1306_OK, s)"
| "draw_bitmap_rows s x y bitmap byte_width w color byte (j # rows) =
     (case draw_bitmap_row s x y bitmap byte_width j color byte [0..<unat w] of
        None \<Rightarrow> None
      | Some (status, s', byte') \<Rightarrow>
          if status \<noteq> SSD1306_OK then Some (status, s')
          else draw_bitmap_rows s' x (y + 1) bitmap byte_width w color byte' rows)"

definition ssd1306_draw_bitmap ::
  "ssd1306_t \<Rightarrow> u8 \<Rightarrow> u8 \<Rightarrow> u8 list \<Rightarrow> u8 \<Rightarrow> u8 \<Rightarrow> int \<Rightarrow> (ssd1306_status_t \<times> ssd1306_t) option" where
  "ssd1306_draw_bitmap s x y bitmap w h color =
     (let byte_width = (unat w + 7) div 8
      in draw_bitmap_rows s x y bitmap byte_width w color 0 [0..<unat h])"

section \<open>Flushing the buffer\<close>

text \<open>
  The loop over the pages \<open>p\<close>, the pages still to send as a list; page \<open>p\<close> is the
  \<^verbatim>\<open>SSD1306_PXL_WIDTH\<close> bytes from \<^verbatim>\<open>&buffer[SSD1306_PXL_WIDTH * p]\<close>.
\<close>

fun update_pages ::
  "i2c_write_t \<Rightarrow> ssd1306_t \<Rightarrow> i2c_frame list \<Rightarrow> nat list \<Rightarrow>
     ssd1306_status_t \<times> ssd1306_t \<times> i2c_frame list" where
  "update_pages i2c s wire [] = (SSD1306_OK, s, wire)"
| "update_pages i2c s wire (p # ps) =
     (let (status, s1, wire1) =
            ssd1306_data_write i2c s wire
              (take SSD1306_PXL_WIDTH (drop (SSD1306_PXL_WIDTH * p) (buffer s)))
      in if status \<noteq> SSD1306_OK then (status, s1, wire1)
         else update_pages i2c s1 wire1 ps)"

definition ssd1306_update ::
  "i2c_write_t \<Rightarrow> ssd1306_t \<Rightarrow> i2c_frame list \<Rightarrow> ssd1306_status_t \<times> ssd1306_t \<times> i2c_frame list" where
  "ssd1306_update i2c s wire = update_pages i2c s wire [0..<SSD1306_NUM_PAGES]"

section \<open>Initialization functions\<close>

definition ssd1306_clear_display ::
  "i2c_write_t \<Rightarrow> ssd1306_t \<Rightarrow> i2c_frame list \<Rightarrow> ssd1306_status_t \<times> ssd1306_t \<times> i2c_frame list" where
  "ssd1306_clear_display i2c s wire =
     (let (status, s1, wire1) = ssd1306_set_inversion i2c s wire False
      in if status \<noteq> SSD1306_OK then (status, s1, wire1)
         else
           let (status2, s2) = ssd1306_draw_fill s1 SSD1306_COLOR_BLACK
           in if status2 \<noteq> SSD1306_OK then (status2, s2, wire1)
              else
                let (status3, s3, wire3) = ssd1306_update i2c s2 wire1
                in if status3 \<noteq> SSD1306_OK then (status3, s3, wire3)
                   else (SSD1306_OK, s3, wire3))"

text \<open>The structure after \<^verbatim>\<open>memset(ssd1306_ptr, 0, sizeof(ssd1306_t))\<close>.\<close>

definition zeroed :: ssd1306_t where
  "zeroed = \<lparr>x_pos = 0, y_pos = 0, inverted = False, initialized = False, scrolling = False,
             i2c_channel = 0, i2c_addr = 0, buffer = replicate SSD1306_BUFFER_SIZE 0\<rparr>"

definition init_cmd_list :: "u8 list" where
  "init_cmd_list =
     [SSD1306_CMD_CONTROL_BYTE,
      SSD1306_CMD_RESUMETORAM,
      SSD1306_CMD_SET_MEMORY_ADDRESSING_MODE,
      SSD1306_SUBCMD_MEM_ADDR_MODE_HAM,
      SSD1306_CMD_SET_COLUMN_ADDRESS, 0x00, 0x7F,
      SSD1306_CMD_SET_PAGE_ADDRESS, 0x00, 0x07,
      0x40,
      SSD1306_CMD_SEGMENT_REMAP_COL127_SEG0,
      SSD1306_CMD_SET_MULTIPLEX_RATIO, 0x3F,
      SSD1306_CMD_COM_SCAN_DIRECTION_REMAPPED,
      SSD1306_CMD_SET_DISPLAY_OFFSET, 0x00,
      SSD1306_CMD_SET_COM_PINS_HW_CONFIG, 0x12,
      SSD1306_CMD_SET_DIS_CLK_OSC_FREQ, 0x80,
      SSD1306_CMD_SET_PRECHARGE_PERIOD, 0x22,
      SSD1306_CMD_SET_VCOMH_DESELECT_LEVEL, 0x20]"

definition ssd1306_init ::
  "i2c_write_t \<Rightarrow> i2c_frame list \<Rightarrow> u8 \<Rightarrow> u8 \<Rightarrow> ssd1306_status_t \<times> ssd1306_t \<times> i2c_frame list" where
  "ssd1306_init i2c wire channel addr =
     (let s0 = zeroed\<lparr>i2c_channel := channel, i2c_addr := addr, initialized := True\<rparr>;
          (st1, s1, w1) = ssd1306_display_off i2c s0 wire
      in if st1 \<noteq> SSD1306_OK then (st1, s1, w1) else
      let (st2, s2, w2) = ssd1306_set_inversion i2c s1 w1 False
      in if st2 \<noteq> SSD1306_OK then (st2, s2, w2) else
      let (st3, s3, w3) = ssd1306_set_contrast i2c s2 w2 0xFF
      in if st3 \<noteq> SSD1306_OK then (st3, s3, w3) else
      let (st4, s4, w4) = ssd1306_set_scroll_status i2c s3 w3 False
      in if st4 \<noteq> SSD1306_OK then (st4, s4, w4) else
      let (st5, s5, w5) = ssd1306_cmd_write_multi i2c s4 w4 init_cmd_list
      in if st5 \<noteq> SSD1306_OK then (st5, s5, w5) else
      let (st6, s6, w6) = ssd1306_display_on i2c s5 w5
      in if st6 \<noteq> SSD1306_OK then (st6, s6, w6) else
      let (st7, s7, w7) = ssd1306_clear_display i2c s6 w6
      in if st7 \<noteq> SSD1306_OK then (st7, s7, w7) else
      (SSD1306_OK, s7, w7))"

section \<open>Notions used to state the properties\<close>

subsection \<open>Pixels\<close>

text \<open>
  The bit a pixel write stores for a requested colour: \<^verbatim>\<open>inverted ? !color : color\<close>,
  white being the set bit.
\<close>

definition physical_bit :: "ssd1306_t \<Rightarrow> int \<Rightarrow> bool" where
  "physical_bit s c = ((if inverted s then c_not c else c) = SSD1306_COLOR_WHITE)"

text \<open>
  Reading pixel \<open>(x, y)\<close> of a buffer: byte \<open>x + page * width\<close>, bit \<open>y mod 8\<close>, as the
  comment on \<^verbatim>\<open>ssd1306_t\<close> lays the buffer out.
\<close>

definition pixel_at :: "u8 list \<Rightarrow> nat \<Rightarrow> nat \<Rightarrow> bool" where
  "pixel_at buf x y = bit (buf ! (x + (y div 8) * SSD1306_PXL_WIDTH)) (y mod 8)"

definition lit_pixels :: "u8 list \<Rightarrow> (nat \<times> nat) set" where
  "lit_pixels buf =
     Set.filter (\<lambda>(x, y). pixel_at buf x y) ({0..<SSD1306_PXL_WIDTH} \<times> {0..<SSD1306_PXL_HEIGHT})"

subsection \<open>The line loop\<close>

text \<open>
  The invariant of the line loop: \<open>x0\<close> and \<open>y0\<close> lie between the start and the end
  point, on the side the steps come from, and the error term is the one Bresenham's
  algorithm has after the steps taken so far.
\<close>

definition line_inv :: "u8 \<Rightarrow> u8 \<Rightarrow> u8 \<Rightarrow> u8 \<Rightarrow> int \<Rightarrow> int \<Rightarrow> int \<Rightarrow> int \<Rightarrow> int \<Rightarrow> bool" where
  "line_inv x0 y0 x1 y1 dx sx dy sy err =
     (let rx = \<bar>uint x1 - uint x0\<bar>; ry = \<bar>uint y1 - uint y0\<bar>
      in rx \<le> dx \<and> ry \<le> - dy \<and>
         uint x1 = uint x0 + sx * rx \<and> uint y1 = uint y0 + sy * ry \<and>
         (sx = 1 \<or> sx = - 1) \<and> (sy = 1 \<or> sy = - 1) \<and>
         err = dx + dy - rx * dy - ry * dx)"

text \<open>
  From \<open>s\<close> to \<open>s'\<close> only the buffer changed, it kept its size, and no lit pixel went
  dark (on sessions that are not inverted).
\<close>

definition keeps_lit :: "ssd1306_t \<Rightarrow> ssd1306_t \<Rightarrow> bool" where
  "keeps_lit s s' =
     (\<not> inverted s' \<and> buffer_ok s' \<and> s' = s\<lparr>buffer := buffer s'\<rparr> \<and>
      (\<forall>a < 128. \<forall>b < 64. pixel_at (buffer s) a b \<longrightarrow> pixel_at (buffer s') a b))"

subsection \<open>Frames on the wire\<close>

text \<open>The data frame of page \<open>p\<close>: the data control byte, then the 128 bytes of the page.\<close>

definition page_frame :: "ssd1306_t \<Rightarrow> nat \<Rightarrow> i2c_frame" where
  "page_frame s p = (i2c_channel s, i2c_addr s, 0x40 # take 128 (drop (128 * p) (buffer s)))"

definition cmd_framed :: "i2c_frame \<Rightarrow> bool" where
  "cmd_framed f = (case snd (snd f) of [] \<Rightarrow> False | b # bs \<Rightarrow> b = 0x00)"

definition data_framed :: "i2c_frame \<Rightarrow> bool" where
  "data_framed f = (case snd (snd f) of [] \<Rightarrow> False | b # bs \<Rightarrow> b = 0x40)"

text \<open>The frames an operation added to the wire it started from.\<close>

definition new_frames ::
  "i2c_frame list \<Rightarrow> ssd1306_status_t \<times> ssd1306_t \<times> i2c_frame list \<Rightarrow> i2c_frame list" where
  "new_frames wire r = drop (length wire) (snd (snd r))"

text \<open>The operation kept the wire it started from and every frame it added satisfies \<open>P\<close>.\<close>

definition emits ::
  "(i2c_frame \<Rightarrow> bool) \<Rightarrow> i2c_frame list \<Rightarrow>
     ssd1306_status_t \<times> ssd1306_t \<times> i2c_frame list \<Rightarrow> bool" where
  "emits P wire r = (take (length wire) (snd (snd r)) = wire \<and> list_all P (new_frames wire r))"

text \<open>The frames added are command frames followed by data frames.\<close>

definition emits_cmds_then_data ::
  "i2c_frame list \<Rightarrow> ssd1306_status_t \<times> ssd1306_t \<times> i2c_frame list \<Rightarrow> bool" where
  "emits_cmds_then_data wire r =
     (take (length wire) (snd (snd r)) = wire \<and>
      list_all data_framed (dropWhile cmd_framed (new_frames wire r)))"

definition mixed ::
  "i2c_frame list \<Rightarrow> ssd1306_status_t \<times> ssd1306_t \<times> i2c_frame list \<Rightarrow> bool" where
  "mixed wire r =
     (\<exists>cs ds. snd (snd r) = wire @ cs @ ds \<and> list_all cmd_framed cs \<and> list_all data_framed ds)"

subsection \<open>Numbers as strings\<close>

text \<open>The digits of \<open>n\<close> in base \<open>b\<close> by repeated division, least significant first.\<close>

function repeated_division :: "nat \<Rightarrow> nat \<Rightarrow> string" where
  "repeated_division n b =
     (if n = 0 \<or> b < 2 then [] else digit_char (n mod b) # repeated_division (n div b) b)"
  by pat_completeness auto
termination
  by (relation "measure fst") auto

declare repeated_division.simps [simp del]

definition base_digits :: "nat \<Rightarrow> nat \<Rightarrow> string" where
  "base_digits n b = rev (repeated_division n b)"

text \<open>
  The signed string of the specification: a minus sign for every negative number, then
  the digits of the magnitude, most significant first.
\<close>

definition spec_signed_string :: "int \<Rightarrow> nat \<Rightarrow> string" where
  "spec_signed_string num b =
     (if num = 0 then ''0''
      else (if num < 0 then ''-'' else []) @ base_digits (nat \<bar>num\<bar>) b)"

text \<open>The same with the minus sign in base ten only.\<close>

definition sign10_string :: "int \<Rightarrow> nat \<Rightarrow> string" where
  "sign10_string num b =
     (if num = 0 then ''0''
      else (if num < 0 \<and> b = 10 then ''-'' else []) @ base_digits (nat \<bar>num\<bar>) b)"

subsection \<open>Statuses of results that may be undefined\<close>

text \<open>The operation, if it has a result, does not return \<open>SSD1306_NOINIT\<close>.\<close>

definition no_noinit :: "(ssd1306_status_t \<times> ssd1306_t) option \<Rightarrow> bool" where
  "no_noinit r = (case r of None \<Rightarrow> True | Some (status, s') \<Rightarrow> status \<noteq> SSD1306_NOINIT)"

subsection \<open>Concrete inputs\<close>

text \<open>An initialized session with a cleared buffer, not inverted.\<close>

definition ready :: ssd1306_t where
  "ready = zeroed\<lparr>i2c_addr := 0x78, initialized := True\<rparr>"

text \<open>A transport that always succeeds, and one whose call number \<open>n\<close> (from 0) fails.\<close>

definition i2c_always_ok :: i2c_write_t where
  "i2c_always_ok wire f = SSD1306_OK"

definition i2c_fail_at :: "nat \<Rightarrow> i2c_write_t" where
  "i2c_fail_at n wire f = (if length wire = n then SSD1306_COMM_ERROR else SSD1306_OK)"

text \<open>A font table with one font, of glyphs one pixel wide and high, every pixel set.\<close>

definition dot_font :: ssd1306_font_t where
  "dot_font = \<lparr>font_width = 1, font_height = 1, font_map8 = (\<lambda>i. 0x80), font_map16 = (\<lambda>i. 0)\<rparr>"

definition dot_fonts :: get_font_ptr_t where
  "dot_fonts font_name = (if font_name = 0 then Some dot_font else None)"

section \<open>Shared lemmas\<close>

lemmas consts_defs = SSD1306_BUFFER_SIZE_def SSD1306_PXL_WIDTH_def SSD1306_PXL_HEIGHT_def
  SSD1306_NUM_PAGES_def SSD1306_DATA_WRITE_BUFFER_SIZE_def SSD1306_CMD_CONTROL_BYTE_def
  SSD1306_DATA_CONTROL_BYTE_def

lemmas cmd_defs = SSD1306_CMD_SET_MEMORY_ADDRESSING_MODE_def SSD1306_CMD_SET_COLUMN_ADDRESS_def SSD1306_CMD_SET_PAGE_ADDRESS_def SSD1306_SUBCMD_MEM_ADDR_MODE_HAM_def
  SSD1306_CMD_SEGMENT_REMAP_COL127_SEG0_def SSD1306_CMD_SET_MULTIPLEX_RATIO_def
  SSD1306_CMD_COM_SCAN_DIRECTION_REMAPPED_def 
  SSD1306_CMD_SET_DISPLAY_OFFSET_def SSD1306_CMD_SET_COM_PINS_HW_CONFIG_def 
  SSD1306_CMD_SET_DIS_CLK_OSC_FREQ_def SSD1306_CMD_SET_PRECHARGE_PERIOD_def SSD1306_CMD_SET_VCOMH_DESELECT_LEVEL_def
  SSD1306_CMD_RIGHT_HORIZONTAL_SCROLL_def SSD1306_CMD_LEFT_HORIZONTAL_SCROLL_def
  SSD1306_CMD_VERTICAL_RIGHT_HORIZONTAL_SCROLL_def SSD1306_CMD_VERTICAL_LEFT_HORIZONTAL_SCROLL_def
  SSD1306_CMD_DEACTIVATE_SCROLL_def SSD1306_CMD_ACTIVATE_SCROLL_def
  SSD1306_CMD_SETCONTRAST_def SSD1306_CMD_CHARGE_PUMP_SETTING_def SSD1306_CMD_RESUMETORAM_def SSD1306_CMD_NORMALDISPLAY_def SSD1306_CMD_INVERTDISPLAY_def
  SSD1306_CMD_DISPLAYOFF_def SSD1306_CMD_DISPLAYON_def SSD1306_SUBCMD_DISABLE_CHARGE_PUMP_def SSD1306_SUBCMD_ENABLE_CHARGE_PUMP_def

lemmas color_defs = SSD1306_COLOR_BLACK_def SSD1306_COLOR_WHITE_def c_not_def

lemma ready_simps:
  "initialized ready" "\<not> inverted ready" "buffer ready = replicate 1024 0"
  "i2c_channel ready = 0" "i2c_addr ready = 0x78" "x_pos ready = 0" "y_pos ready = 0"
  "buffer_ok ready"
  by (simp_all add: ready_def zeroed_def buffer_ok_def consts_defs)

subsection \<open>Addressing a pixel\<close>

lemma pixel_index_eq:
  "pixel_index x y = unat x + (unat y div 8) * 128"
  by (simp add: pixel_index_def SSD1306_PXL_WIDTH_def unat_drop_bit_eq drop_bit_eq_div unat_div)

lemma pixel_index_less:
  assumes "unat x < 128" "unat y < 64"
  shows "pixel_index x y < 1024"
proof -
  from assms(2) have "unat y div 8 \<le> 7" by simp
  with assms(1) show ?thesis unfolding pixel_index_eq by simp
qed

lemma and7_eq: "unat ((y::u8) AND 0x7) = unat y mod 8"
proof -
  have "(y AND 0x7) = take_bit 3 y"
    by (simp add: take_bit_eq_mask mask_eq_exp_minus_1)
  then show ?thesis by (simp add: unsigned_take_bit_eq take_bit_eq_mod unat_mod)
qed

lemma bit_pixel_mask: "bit (pixel_mask y) k \<longleftrightarrow> k = unat y mod 8"
proof -
  have "unat y mod 8 < 8" by simp
  then show ?thesis
    unfolding pixel_mask_def and7_eq
    by (auto simp: bit_push_bit_iff bit_1_iff bit_exp_iff)
qed

lemma draw_pixel_outside:
  "unat x \<ge> 128 \<or> unat y \<ge> 64 \<Longrightarrow> ssd1306_draw_pixel s x y c = (SSD1306_OK, s)"
  by (simp add: ssd1306_draw_pixel_def SSD1306_PXL_WIDTH_def SSD1306_PXL_HEIGHT_def)

lemma draw_pixel_inside:
  assumes "unat x < 128" "unat y < 64"
    and "c = SSD1306_COLOR_BLACK \<or> c = SSD1306_COLOR_WHITE"
  shows "ssd1306_draw_pixel s x y c =
     (SSD1306_OK, s\<lparr>buffer := (buffer s)[pixel_index x y :=
         (if physical_bit s c then (buffer s ! pixel_index x y) OR pixel_mask y
          else (buffer s ! pixel_index x y) AND NOT (pixel_mask y))]\<rparr>)"
  using assms
  by (auto simp: ssd1306_draw_pixel_def SSD1306_PXL_WIDTH_def SSD1306_PXL_HEIGHT_def
      physical_bit_def c_not_def SSD1306_COLOR_BLACK_def SSD1306_COLOR_WHITE_def Let_def)

lemma draw_pixel_buffer_only:
  assumes "c = SSD1306_COLOR_BLACK \<or> c = SSD1306_COLOR_WHITE"
  shows "\<exists>buf. ssd1306_draw_pixel s x y c = (SSD1306_OK, s\<lparr>buffer := buf\<rparr>)"
proof (cases "unat x \<ge> SSD1306_PXL_WIDTH \<or> unat y \<ge> SSD1306_PXL_HEIGHT")
  case True
  then have "ssd1306_draw_pixel s x y c = (SSD1306_OK, s\<lparr>buffer := buffer s\<rparr>)"
    by (simp add: ssd1306_draw_pixel_def)
  then show ?thesis by blast
next
  case False
  then show ?thesis using assms
    by (auto simp: ssd1306_draw_pixel_def Let_def c_not_def SSD1306_COLOR_BLACK_def SSD1306_COLOR_WHITE_def)
qed

section \<open>Pixel writes\<close>

text \<open>
  \<^bold>\<open>C2.\<close> For every coordinate pair \<open>(x, y)\<close> and colour \<open>c\<close>: if \<open>x \<ge> 128\<close> or \<open>y \<ge> 64\<close>,
  \<open>ssd1306_draw_pixel\<close> returns success and leaves the session, hence the framebuffer, as
  it was (whatever \<open>c\<close> is); otherwise, for \<open>c\<close> one of the two colours of the enumeration
  and a buffer of its 1024 bytes, it returns success, changes nothing but the buffer, and
  sets bit \<open>y mod 8\<close> of buffer byte \<open>x + (y div 8) * 128\<close> to the physical value
  \<^verbatim>\<open>inverted ? !c : c\<close>, every other bit of the framebuffer keeping its value.
\<close>

theorem draw_pixel_sets_one_bit:
  "(unat x \<ge> 128 \<or> unat y \<ge> 64 \<longrightarrow> ssd1306_draw_pixel s x y c = (SSD1306_OK, s)) \<and>
   (unat x < 128 \<and> unat y < 64 \<and> buffer_ok s \<and>
    (c = SSD1306_COLOR_BLACK \<or> c = SSD1306_COLOR_WHITE) \<longrightarrow>
      (\<exists>buf. ssd1306_draw_pixel s x y c = (SSD1306_OK, s\<lparr>buffer := buf\<rparr>) \<and>
         length buf = SSD1306_BUFFER_SIZE \<and>
         (\<forall>i < SSD1306_BUFFER_SIZE. \<forall>k < 8.
            bit (buf ! i) k =
              (if i = unat x + (unat y div 8) * 128 \<and> k = unat y mod 8
               then physical_bit s c
               else bit (buffer s ! i) k))))"
proof (intro conjI impI)
  assume "unat x \<ge> 128 \<or> unat y \<ge> 64"
  then show "ssd1306_draw_pixel s x y c = (SSD1306_OK, s)" by (rule draw_pixel_outside)
next
  assume hyps: "unat x < 128 \<and> unat y < 64 \<and> buffer_ok s \<and>
    (c = SSD1306_COLOR_BLACK \<or> c = SSD1306_COLOR_WHITE)"
  then have in_range: "unat x < 128 \<and> unat y < 64"
    and colour: "c = SSD1306_COLOR_BLACK \<or> c = SSD1306_COLOR_WHITE"
    by simp_all
  let ?i = "pixel_index x y"
  let ?b = "buffer s ! ?i"
  let ?v = "if physical_bit s c then ?b OR pixel_mask y else ?b AND NOT (pixel_mask y)"
  let ?buf = "(buffer s)[?i := ?v]"
  have len: "length (buffer s) = 1024"
    using hyps by (simp add: buffer_ok_def consts_defs)
  have i_lt: "?i < 1024" using in_range by (simp add: pixel_index_less)
  have res: "ssd1306_draw_pixel s x y c = (SSD1306_OK, s\<lparr>buffer := ?buf\<rparr>)"
    using in_range colour by (simp add: draw_pixel_inside)
  have bits: "bit (?buf ! i) k =
            (if i = unat x + (unat y div 8) * 128 \<and> k = unat y mod 8
             then physical_bit s c else bit (buffer s ! i) k)" if "i < 1024" for i k
  proof (cases "i = ?i")
    case True
    then have "?buf ! i = ?v" using len i_lt by simp
    then show ?thesis using True
      by (auto simp: bit_or_iff bit_and_iff bit_not_iff bit_pixel_mask pixel_index_eq
          dest: bit_imp_le_length)
  next
    case False
    then have "?buf ! i = buffer s ! i" by simp
    then show ?thesis using False by (simp add: pixel_index_eq)
  qed
  show "\<exists>buf. ssd1306_draw_pixel s x y c = (SSD1306_OK, s\<lparr>buffer := buf\<rparr>) \<and>
               length buf = SSD1306_BUFFER_SIZE \<and>
               (\<forall>i < SSD1306_BUFFER_SIZE. \<forall>k < 8.
                  bit (buf ! i) k =
                    (if i = unat x + (unat y div 8) * 128 \<and> k = unat y mod 8
                     then physical_bit s c
                     else bit (buffer s ! i) k))"
    apply (rule exI [of _ ?buf])
    using res len bits
    by (simp add: consts_defs)
qed

theorem draw_pixel_sets_one_bit_witness:
  "ssd1306_draw_pixel ready 200 10 7 = (SSD1306_OK, ready) \<and>
   (\<exists>buf. ssd1306_draw_pixel ready 3 10 SSD1306_COLOR_WHITE = (SSD1306_OK, ready\<lparr>buffer := buf\<rparr>) \<and>
      bit (buf ! 131) 2 \<and> \<not> bit (buf ! 131) 3 \<and> \<not> bit (buf ! 3) 2)"
proof -
  have zero: "buffer ready ! i = 0" if "i < 1024" for i
    using that by (simp add: ready_simps)
  have phys: "physical_bit ready SSD1306_COLOR_WHITE"
    by (simp add: physical_bit_def ready_simps)
  from draw_pixel_sets_one_bit [of 200 10 ready 7]
  have out: "ssd1306_draw_pixel ready 200 10 7 = (SSD1306_OK, ready)" by simp
  have "\<exists>buf. ssd1306_draw_pixel ready 3 10 SSD1306_COLOR_WHITE = (SSD1306_OK, ready\<lparr>buffer := buf\<rparr>) \<and>
         length buf = SSD1306_BUFFER_SIZE \<and>
         (\<forall>i < SSD1306_BUFFER_SIZE. \<forall>k < 8.
            bit (buf ! i) k =
              (if i = unat (3::u8) + (unat (10::u8) div 8) * 128 \<and> k = unat (10::u8) mod 8
               then physical_bit ready SSD1306_COLOR_WHITE
               else bit (buffer ready ! i) k))"
    using draw_pixel_sets_one_bit [of 3 10 ready SSD1306_COLOR_WHITE]
    by (simp add: ready_simps)
  then obtain buf where
    res: "ssd1306_draw_pixel ready 3 10 SSD1306_COLOR_WHITE = (SSD1306_OK, ready\<lparr>buffer := buf\<rparr>)"
    and bits: "\<forall>i<SSD1306_BUFFER_SIZE. \<forall>k<8. bit (buf ! i) k =
                 (if i = unat (3::u8) + unat (10::u8) div 8 * 128 \<and> k = unat (10::u8) mod 8
                  then physical_bit ready SSD1306_COLOR_WHITE else bit (buffer ready ! i) k)"
    by (elim exE conjE)
  have b1: "bit (buf ! 131) 2" using bits [rule_format, of 131 2] phys by (simp add: consts_defs)
  have b2: "\<not> bit (buf ! 131) 3" using bits [rule_format, of 131 3] zero [of 131] by (simp add: consts_defs)
  have b3: "\<not> bit (buf ! 3) 2" using bits [rule_format, of 3 2] zero [of 3] by (simp add: consts_defs)
  show ?thesis by (intro conjI exI [of _ buf] out res b1 b2 b3)
qed

section \<open>Filling the buffer\<close>

text \<open>
  \<^bold>\<open>C7.\<close> For each inversion state and each colour of the enumeration,
  \<open>ssd1306_draw_fill\<close> returns success and leaves every one of the 1024 framebuffer bytes
  equal to one byte, \<open>0xFF\<close> when the physical value \<^verbatim>\<open>inverted ? !c : c\<close> is white and
  \<open>0x00\<close> otherwise; so the buffer after filling black then white is the bytewise
  complement of the buffer after filling white then black, whatever the inversion state.
\<close>

theorem draw_fill_uniform:
  "(c = SSD1306_COLOR_BLACK \<or> c = SSD1306_COLOR_WHITE \<longrightarrow>
      ssd1306_draw_fill s c =
        (SSD1306_OK, s\<lparr>buffer := replicate 1024 (if physical_bit s c then 0xFF else 0x00)\<rparr>)) \<and>
   buffer (snd (ssd1306_draw_fill (snd (ssd1306_draw_fill s SSD1306_COLOR_BLACK)) SSD1306_COLOR_WHITE)) =
     map NOT (buffer (snd (ssd1306_draw_fill (snd (ssd1306_draw_fill s SSD1306_COLOR_WHITE)) SSD1306_COLOR_BLACK)))"
  by (auto simp: ssd1306_draw_fill_def memset_buffer_def physical_bit_def c_not_def consts_defs
      SSD1306_COLOR_BLACK_def SSD1306_COLOR_WHITE_def)

theorem draw_fill_uniform_witness:
  "ssd1306_draw_fill ready SSD1306_COLOR_WHITE = (SSD1306_OK, ready\<lparr>buffer := replicate 1024 0xFF\<rparr>) \<and>
   ssd1306_draw_fill (ready\<lparr>inverted := True\<rparr>) SSD1306_COLOR_WHITE =
     (SSD1306_OK, ready\<lparr>inverted := True, buffer := replicate 1024 0x00\<rparr>)"
  using draw_fill_uniform [of SSD1306_COLOR_WHITE ready]
    draw_fill_uniform [of SSD1306_COLOR_WHITE "ready\<lparr>inverted := True\<rparr>"]
  by (simp add: physical_bit_def ready_simps color_defs)

section \<open>The data write\<close>

text \<open>
  \<^bold>\<open>C6.\<close> On an initialized session the data write takes payloads of at most 128 bytes:
  a payload of more than 128 bytes returns \<open>SSD1306_WRONG_PARAMS\<close> and the wire is as it
  was (the transport is not called); any other payload is handed to the transport once,
  as a frame of payload size + 1 bytes (the control byte, then the payload), and the
  status of the transport is returned.
\<close>

theorem data_write_capacity:
  assumes "initialized s"
  shows "(length data > 128 \<longrightarrow> ssd1306_data_write i2c s wire data = (SSD1306_WRONG_PARAMS, s, wire)) \<and>
         (length data \<le> 128 \<longrightarrow>
            ssd1306_data_write i2c s wire data =
              (i2c wire (i2c_channel s, i2c_addr s, 0x40 # data), s,
               wire @ [(i2c_channel s, i2c_addr s, 0x40 # data)]) \<and>
            length (0x40 # data) = length data + 1)"
  using assms by (simp add: ssd1306_data_write_def i2c_call_def consts_defs Let_def)

theorem data_write_capacity_witness:
  "initialized ready \<and>
   ssd1306_data_write i2c_always_ok ready [] (replicate 129 0) = (SSD1306_WRONG_PARAMS, ready, []) \<and>
   ssd1306_data_write i2c_always_ok ready [] [1, 2, 3] =
     (SSD1306_OK, ready, [(0, 0x78, [0x40, 1, 2, 3])])"
proof -
  have h: "initialized ready" by (rule ready_simps)
  show ?thesis
    using h data_write_capacity [OF h, of "replicate 129 0" i2c_always_ok "[]"]
      data_write_capacity [OF h, of "[1, 2, 3]" i2c_always_ok "[]"]
    by (simp add: ready_simps i2c_always_ok_def)
qed

section \<open>Inversion\<close>

text \<open>
  \<^bold>\<open>C9.\<close> \<open>ssd1306_set_inversion\<close> never changes the framebuffer bytes. When it returns a
  status other than OK the session is exactly as before the call, so the inverted flag
  keeps its value; when it returns OK the only change is that the inverted flag is the
  requested one. On an initialized session the status is that of the transport for the
  command frame, so a transport error leaves the flag alone.
\<close>

theorem set_inversion_frame:
  "buffer (fst (snd (ssd1306_set_inversion i2c s wire b))) = buffer s \<and>
   (fst (ssd1306_set_inversion i2c s wire b) \<noteq> SSD1306_OK \<longrightarrow>
      fst (snd (ssd1306_set_inversion i2c s wire b)) = s) \<and>
   (fst (ssd1306_set_inversion i2c s wire b) = SSD1306_OK \<longrightarrow>
      fst (snd (ssd1306_set_inversion i2c s wire b)) = s\<lparr>inverted := b\<rparr>) \<and>
   (initialized s \<longrightarrow>
      fst (ssd1306_set_inversion i2c s wire b) =
        i2c wire (i2c_channel s, i2c_addr s,
          [SSD1306_CMD_CONTROL_BYTE,
           if b then SSD1306_CMD_INVERTDISPLAY else SSD1306_CMD_NORMALDISPLAY]))"
  by (simp add: ssd1306_set_inversion_def ssd1306_cmd_write_multi_def i2c_call_def Let_def)

theorem set_inversion_frame_witness:
  "initialized ready \<and>
   ssd1306_set_inversion i2c_always_ok ready [] True =
     (SSD1306_OK, ready\<lparr>inverted := True\<rparr>,
      [(0, 0x78, [SSD1306_CMD_CONTROL_BYTE, SSD1306_CMD_INVERTDISPLAY])]) \<and>
   ssd1306_set_inversion (stm32_i2c_write (\<lambda>w f. False)) ready [] True =
     (SSD1306_COMM_ERROR, ready,
      [(0, 0x78, [SSD1306_CMD_CONTROL_BYTE, SSD1306_CMD_INVERTDISPLAY])])"
proof -
  let ?f = "(0, 0x78, [SSD1306_CMD_CONTROL_BYTE, SSD1306_CMD_INVERTDISPLAY]) :: i2c_frame"
  have h: "initialized ready" by (rule ready_simps)
  have w: "snd (snd (ssd1306_set_inversion i2c ready [] True)) = [?f]" for i2c
    by (simp add: ssd1306_set_inversion_def ssd1306_cmd_write_multi_def i2c_call_def
        ready_simps Let_def)
  have ok: "i2c_always_ok [] ?f = SSD1306_OK"
    by (simp add: i2c_always_ok_def)
  have bad: "stm32_i2c_write (\<lambda>w f. False) [] ?f = SSD1306_COMM_ERROR"
    by (simp add: stm32_i2c_write_def)
  have "ssd1306_set_inversion i2c_always_ok ready [] True = (SSD1306_OK, ready\<lparr>inverted := True\<rparr>, [?f])"
    using set_inversion_frame [of i2c_always_ok ready "[]" True] w [of i2c_always_ok] ok h
    by (simp add: ready_simps prod_eq_iff)
  moreover have "ssd1306_set_inversion (stm32_i2c_write (\<lambda>w f. False)) ready [] True =
     (SSD1306_COMM_ERROR, ready, [?f])"
    using set_inversion_frame [of "stm32_i2c_write (\<lambda>w f. False)" ready "[]" True]
      w [of "stm32_i2c_write (\<lambda>w f. False)"] bad h
    by (simp add: ready_simps prod_eq_iff)
  ultimately show ?thesis using h by simp
qed

section \<open>Flushing\<close>

lemma data_write_session: "fst (snd (ssd1306_data_write i2c s wire d)) = s"
  by (simp add: ssd1306_data_write_def i2c_call_def Let_def)

lemma update_pages_session: "fst (snd (update_pages i2c s wire ps)) = s"
proof (induction ps arbitrary: wire)
  case Nil
  show ?case by simp
next
  case (Cons p ps)
  obtain st s1 w1 where dw:
    "ssd1306_data_write i2c s wire (take SSD1306_PXL_WIDTH (drop (SSD1306_PXL_WIDTH * p) (buffer s))) = (st, s1, w1)"
    by (metis prod_cases3)
  then have "s1 = s" using data_write_session [of i2c s wire] by (metis fst_conv snd_conv)
  with dw Cons.IH [of w1] show ?case by simp
qed

lemma update_pages_fail_step:
  "update_pages (i2c_fail_at n) ready wire (p # ps) =
     (if length wire = n then (SSD1306_COMM_ERROR, ready, wire @ [page_frame ready p])
      else update_pages (i2c_fail_at n) ready (wire @ [page_frame ready p]) ps)"
  by (simp add: ssd1306_data_write_def i2c_call_def i2c_fail_at_def page_frame_def
      ready_simps consts_defs Let_def)

lemma update_fail_at_3:
  "ssd1306_update (i2c_fail_at 3) ready [] =
     (SSD1306_COMM_ERROR, ready,
      [page_frame ready 0, page_frame ready 1, page_frame ready 2, page_frame ready 3])"
proof -
  have pages: "[0..<SSD1306_NUM_PAGES] = [0, 1, 2, 3, 4, 5, 6, 7]"
    by (simp add: consts_defs upt_rec)
  show ?thesis
    unfolding ssd1306_update_def pages
    by (simp add: update_pages_fail_step del: update_pages.simps)
qed

text \<open>
  \<^bold>\<open>C10.\<close> \<open>ssd1306_update\<close> is read-only on the session: for every session, every wire
  and every transport (whatever status it returns at whichever page), the session after
  the call is the session before it: framebuffer, cursor, and the inverted, scrolling and
  initialized flags.
\<close>

theorem update_read_only: "fst (snd (ssd1306_update i2c s wire)) = s"
  by (simp add: ssd1306_update_def update_pages_session)

theorem update_read_only_witness:
  "fst (ssd1306_update (i2c_fail_at 3) ready []) = SSD1306_COMM_ERROR \<and>
   length (snd (snd (ssd1306_update (i2c_fail_at 3) ready []))) = 4 \<and>
   fst (snd (ssd1306_update (i2c_fail_at 3) ready [])) = ready"
  using update_read_only [of "i2c_fail_at 3" ready "[]"] update_fail_at_3
  by simp

lemma update_pages_ok:
  assumes "initialized s" "buffer_ok s" "\<forall>w f. i2c w f = SSD1306_OK"
  shows "update_pages i2c s wire ps = (SSD1306_OK, s, wire @ map (page_frame s) ps)"
proof (induction ps arbitrary: wire)
  case Nil
  show ?case by simp
next
  case (Cons p ps)
  have "ssd1306_data_write i2c s wire (take SSD1306_PXL_WIDTH (drop (SSD1306_PXL_WIDTH * p) (buffer s)))
        = (SSD1306_OK, s, wire @ [page_frame s p])"
    using assms by (simp add: ssd1306_data_write_def i2c_call_def consts_defs page_frame_def)
  then show ?case using Cons.IH [of "wire @ [page_frame s p]"] by simp
qed

text \<open>
  \<^bold>\<open>C3.\<close> On an initialized session whose transport succeeds, \<open>ssd1306_update\<close> returns
  OK and adds exactly 8 frames to the wire, for the pages \<open>p = 0, \<dots>, 7\<close> in this order;
  frame \<open>p\<close> is the data control byte followed by exactly the 128 bytes
  \<open>buffer[128 * p .. 128 * p + 127]\<close>. On a freshly cleared buffer every payload byte is zero.
\<close>

theorem update_sends_pages:
  assumes "initialized s" "buffer_ok s" "\<forall>w f. i2c w f = SSD1306_OK"
  shows "ssd1306_update i2c s wire = (SSD1306_OK, s, wire @ map (page_frame s) [0..<8]) \<and>
         (\<forall>p < 8. length (take 128 (drop (128 * p) (buffer s))) = 128 \<and>
                  (\<forall>k < 128. take 128 (drop (128 * p) (buffer s)) ! k = buffer s ! (128 * p + k))) \<and>
         (buffer s = buffer (snd (ssd1306_clear_buffer s)) \<longrightarrow>
            map (page_frame s) [0..<8] = replicate 8 (i2c_channel s, i2c_addr s, 0x40 # replicate 128 0))"
proof (intro conjI allI impI)
  show "ssd1306_update i2c s wire = (SSD1306_OK, s, wire @ map (page_frame s) [0..<8])"
    using update_pages_ok [OF assms] by (simp add: ssd1306_update_def consts_defs)
next
  fix p :: nat assume "p < 8"
  then show "length (take 128 (drop (128 * p) (buffer s))) = 128"
    using assms(2) by (simp add: buffer_ok_def consts_defs)
next
  fix p k :: nat assume "p < 8" "k < 128"
  then show "take 128 (drop (128 * p) (buffer s)) ! k = buffer s ! (128 * p + k)"
    using assms(2) by (simp add: buffer_ok_def consts_defs)
next
  assume "buffer s = buffer (snd (ssd1306_clear_buffer s))"
  then have "buffer s = replicate 1024 0"
    by (simp add: ssd1306_clear_buffer_def memset_buffer_def consts_defs)
  then have "\<forall>p \<in> set [0..<8]. page_frame s p = (i2c_channel s, i2c_addr s, 0x40 # replicate 128 0)"
    by (auto simp: page_frame_def min_def)
  then have "map (page_frame s) [0..<8] = map (\<lambda>_. (i2c_channel s, i2c_addr s, 0x40 # replicate 128 0)) [0..<8]"
    by (intro map_cong) auto
  also have "\<dots> = replicate 8 (i2c_channel s, i2c_addr s, 0x40 # replicate 128 0)"
    by (simp add: map_replicate_const)
  finally show "map (page_frame s) [0..<8] = replicate 8 (i2c_channel s, i2c_addr s, 0x40 # replicate 128 0)" .
qed

theorem update_sends_pages_witness:
  "initialized ready \<and> buffer_ok ready \<and> (\<forall>w f. i2c_always_ok w f = SSD1306_OK) \<and>
   ssd1306_update i2c_always_ok ready [] =
     (SSD1306_OK, ready, replicate 8 (0, 0x78, 0x40 # replicate 128 0))"
proof -
  have h1: "initialized ready" and h2: "buffer_ok ready" by (rule ready_simps)+
  have h3: "\<forall>w f. i2c_always_ok w f = SSD1306_OK" by (simp add: i2c_always_ok_def)
  have cl: "buffer ready = buffer (snd (ssd1306_clear_buffer ready))"
    by (simp add: ssd1306_clear_buffer_def memset_buffer_def ready_simps consts_defs)
  from update_sends_pages [OF h1 h2 h3, of "[]"] cl
  have "ssd1306_update i2c_always_ok ready [] =
     (SSD1306_OK, ready, replicate 8 (i2c_channel ready, i2c_addr ready, 0x40 # replicate 128 0))"
    by simp
  then show ?thesis using h1 h2 h3 by (simp add: ready_simps)
qed

section \<open>Lines\<close>

lemma draw_pixel_row0_white:
  assumes "\<not> inverted s" "unat x < 128" "length (buffer s) = 1024"
  shows "ssd1306_draw_pixel s x 0 SSD1306_COLOR_WHITE =
         (SSD1306_OK, s\<lparr>buffer := (buffer s)[unat x := (buffer s ! unat x) OR 1]\<rparr>)"
  using assms
  by (simp add: ssd1306_draw_pixel_def consts_defs pixel_index_eq pixel_mask_def
      SSD1306_COLOR_WHITE_def SSD1306_COLOR_BLACK_def Let_def)

text \<open>One round of the loop on a horizontal line that has not reached its end.\<close>

lemma hline_step:
  assumes "\<not> inverted s" "length (buffer s) = 1024" "unat x0 < 128" "x0 \<noteq> x1" "0 < dx"
  shows "draw_line_loop s x0 0 x1 0 SSD1306_COLOR_WHITE dx 1 0 sy dx =
         draw_line_loop (s\<lparr>buffer := (buffer s)[unat x0 := (buffer s ! unat x0) OR 1]\<rparr>)
           (x0 + 1) 0 x1 0 SSD1306_COLOR_WHITE dx 1 0 sy dx"
  using assms
  by (subst draw_line_loop.simps) (simp add: draw_pixel_row0_white Let_def)

lemma hline_last:
  assumes "\<not> inverted s" "length (buffer s) = 1024" "unat x0 < 128"
  shows "draw_line_loop s x0 0 x0 0 SSD1306_COLOR_WHITE dx sx dy sy err =
         Some (SSD1306_OK, s\<lparr>buffer := (buffer s)[unat x0 := (buffer s ! unat x0) OR 1]\<rparr>)"
  using assms
  by (subst draw_line_loop.simps) (simp add: draw_pixel_row0_white)

lemma line_point:
  assumes "\<not> inverted s" "buffer s = replicate 1024 0"
  shows "ssd1306_draw_line s 0 0 0 0 SSD1306_COLOR_WHITE =
         Some (SSD1306_OK, s\<lparr>buffer := (replicate 1024 0)[0 := 1]\<rparr>)"
  using assms by (simp add: ssd1306_draw_line_def ABS_def Let_def hline_last)

lemma line_10:
  assumes "\<not> inverted s" "buffer s = replicate 1024 0"
  shows "ssd1306_draw_line s 0 0 10 0 SSD1306_COLOR_WHITE =
         Some (SSD1306_OK, s\<lparr>buffer := (replicate 1024 0)[0 := 1, 1 := 1, 2 := 1, 3 := 1, 4 := 1,
              5 := 1, 6 := 1, 7 := 1, 8 := 1, 9 := 1, 10 := 1]\<rparr>)"
  using assms
  by (simp add: ssd1306_draw_line_def ABS_def Let_def hline_step hline_last)

lemma row_buffer_nth:
  assumes "i < 1024"
  shows "(replicate 1024 (0::u8))[0 := 1, 1 := 1, 2 := 1, 3 := 1, 4 := 1,
              5 := 1, 6 := 1, 7 := 1, 8 := 1, 9 := 1, 10 := 1] ! i = (if i \<le> 10 then 1 else 0)"
  using assms by (auto simp: nth_list_update) arith

lemma point_buffer_nth:
  assumes "i < 1024"
  shows "(replicate 1024 (0::u8))[0 := 1] ! i = (if i \<le> 0 then 1 else 0)"
  using assms by (auto simp: nth_list_update)

lemma pixel_addr:
  assumes "(x::nat) < 128" "(y::nat) < 64"
  shows "x + (y div 8) * 128 < 1024"
proof -
  from assms(2) have "y div 8 \<le> 7" by simp
  with assms(1) show ?thesis by simp
qed

lemma pixel_row0:
  assumes "(x::nat) < 128" "(n::nat) < 128"
  shows "x + (y div 8) * 128 \<le> n \<and> y mod 8 = 0 \<longleftrightarrow> x \<le> n \<and> y = (0::nat)"
proof (cases "y div 8 = 0")
  case True
  then show ?thesis by (auto simp: div_eq_0_iff)
next
  case False
  then have "128 \<le> (y div 8) * 128" by simp
  with assms False show ?thesis by auto
qed

subsection \<open>The loop ends, for every pair of end points\<close>

lemma uint_step:
  fixes a b :: u8
  assumes "uint b = uint a + sx * r" "1 \<le> r" "sx = 1 \<or> sx = - 1"
  shows "uint (a + word_of_int sx) = uint a + sx"
    and "\<bar>uint b - uint (a + word_of_int sx)\<bar> = r - 1"
    and "uint b = uint (a + word_of_int sx) + sx * (r - 1)"
proof -
  have bb: "0 \<le> uint b" "uint b < 256" "0 \<le> uint a" "uint a < 256"
    using uint_lt2p [of a] uint_lt2p [of b] by simp_all
  have range: "0 \<le> uint a + sx \<and> uint a + sx < 256"
    using assms bb by auto
  have "uint (a + word_of_int sx) = (uint a + sx) mod 256"
    by (simp add: uint_word_ariths uint_word_of_int mod_add_right_eq)
  with range show 1: "uint (a + word_of_int sx) = uint a + sx" by simp
  show "\<bar>uint b - uint (a + word_of_int sx)\<bar> = r - 1"
    unfolding 1 using assms by auto
  show "uint b = uint (a + word_of_int sx) + sx * (r - 1)"
    unfolding 1 using assms by (auto simp: algebra_simps)
qed

lemma no_x_step:
  assumes "rx = 0" "1 \<le> ry" "ry \<le> - dy" "0 \<le> dx" "err = dx + dy - rx * dy - ry * dx"
  shows "2 * err < (dy::int)"
proof -
  have "ry * dx \<ge> dx" using assms(2,4) by (simp add: mult_le_cancel_right1)
  then have "err \<le> dy" using assms by simp
  moreover have "dy < 0" using assms by simp
  ultimately show ?thesis by simp
qed

lemma no_y_step:
  assumes "ry = 0" "1 \<le> rx" "rx \<le> dx" "dy \<le> 0" "err = dx + dy - rx * dy - ry * dx"
  shows "(dx::int) < 2 * err"
proof -
  have "rx * dy \<le> dy" using assms(2,4) by (simp add: mult_le_cancel_right2)
  then have "dx \<le> err" using assms by simp
  moreover have "0 < dx" using assms by simp
  ultimately show ?thesis by simp
qed


lemma line_inv_step:
  assumes inv: "line_inv x0 y0 x1 y1 dx sx dy sy err"
    and nf: "\<not> (x0 = x1 \<and> y0 = y1)"
  defines "xs \<equiv> dy \<le> 2 * err" and "ys \<equiv> 2 * err \<le> dx"
  defines "x0' \<equiv> (if xs then x0 + word_of_int sx else x0)"
    and "y0' \<equiv> (if ys then y0 + word_of_int sy else y0)"
    and "err' \<equiv> (if ys then (if xs then err + dy else err) + dx else (if xs then err + dy else err))"
  shows "line_inv x0' y0' x1 y1 dx sx dy sy err'"
    and "nat (\<bar>uint x1 - uint x0'\<bar> + \<bar>uint y1 - uint y0'\<bar>) <
         nat (\<bar>uint x1 - uint x0\<bar> + \<bar>uint y1 - uint y0\<bar>)"
proof -
  define rx where "rx = \<bar>uint x1 - uint x0\<bar>"
  define ry where "ry = \<bar>uint y1 - uint y0\<bar>"
  from inv have i: "rx \<le> dx" "ry \<le> - dy" "uint x1 = uint x0 + sx * rx"
    "uint y1 = uint y0 + sy * ry" "sx = 1 \<or> sx = - 1" "sy = 1 \<or> sy = - 1"
    "err = dx + dy - rx * dy - ry * dx"
    by (simp_all add: line_inv_def Let_def rx_def ry_def)
  have nonneg: "0 \<le> rx" "0 \<le> ry" by (simp_all add: rx_def ry_def)
  have d: "0 \<le> dx" "dy \<le> 0" using i nonneg by simp_all
  have some: "1 \<le> rx \<or> 1 \<le> ry"
  proof (rule ccontr)
    assume "\<not> (1 \<le> rx \<or> 1 \<le> ry)"
    then have "rx = 0" "ry = 0" using nonneg by simp_all
    then have "uint x1 = uint x0" "uint y1 = uint y0" by (simp_all add: rx_def ry_def)
    then have "x0 = x1 \<and> y0 = y1" by (simp add: word_uint_eq_iff)
    with nf show False by simp
  qed
  have x_pos: "1 \<le> rx" if xs
  proof (rule ccontr)
    assume "\<not> 1 \<le> rx"
    then have "rx = 0" using nonneg by simp
    moreover from this some have "1 \<le> ry" by simp
    ultimately have "2 * err < dy" using i d by (intro no_x_step [of rx ry dy dx err]) simp_all
    with that show False by (simp add: xs_def)
  qed
  have y_pos: "1 \<le> ry" if ys
  proof (rule ccontr)
    assume "\<not> 1 \<le> ry"
    then have "ry = 0" using nonneg by simp
    moreover from this some have "1 \<le> rx" by simp
    ultimately have "dx < 2 * err" using i d by (intro no_y_step [of ry rx dx dy err]) simp_all
    with that show False by (simp add: ys_def)
  qed
  have progress: "xs \<or> ys" using d by (auto simp: xs_def ys_def)
  define rx' where "rx' = (if xs then rx - 1 else rx)"
  define ry' where "ry' = (if ys then ry - 1 else ry)"
  have X: "\<bar>uint x1 - uint x0'\<bar> = rx' \<and> uint x1 = uint x0' + sx * rx'"
  proof (cases xs)
    case True
    with uint_step(2,3) [OF i(3) x_pos [OF True] i(5)] show ?thesis
      by (simp add: x0'_def rx'_def)
  next
    case False
    then show ?thesis using i(3) by (simp add: x0'_def rx'_def rx_def)
  qed
  have Y: "\<bar>uint y1 - uint y0'\<bar> = ry' \<and> uint y1 = uint y0' + sy * ry'"
  proof (cases ys)
    case True
    with uint_step(2,3) [OF i(4) y_pos [OF True] i(6)] show ?thesis
      by (simp add: y0'_def ry'_def)
  next
    case False
    then show ?thesis using i(4) by (simp add: y0'_def ry'_def ry_def)
  qed
  have E: "err' = dx + dy - rx' * dy - ry' * dx"
    using i(7) by (simp add: err'_def rx'_def ry'_def algebra_simps)
  have B: "rx' \<le> dx" "ry' \<le> - dy" using i(1,2) by (simp_all add: rx'_def ry'_def)
  from X Y have a1: "\<bar>uint x1 - uint x0'\<bar> = rx'" and a2: "uint x1 = uint x0' + sx * rx'"
    and b1: "\<bar>uint y1 - uint y0'\<bar> = ry'" and b2: "uint y1 = uint y0' + sy * ry'"
    by blast+
  show "line_inv x0' y0' x1 y1 dx sx dy sy err'"
    unfolding line_inv_def Let_def a1 b1
    by (intro conjI a2 b2 E B i(5) i(6))
  have "rx' + ry' < rx + ry" "0 \<le> rx' + ry'"
    using progress x_pos y_pos nonneg by (auto simp: rx'_def ry'_def)
  then show "nat (\<bar>uint x1 - uint x0'\<bar> + \<bar>uint y1 - uint y0'\<bar>) <
         nat (\<bar>uint x1 - uint x0\<bar> + \<bar>uint y1 - uint y0\<bar>)"
    unfolding a1 b1 rx_def [symmetric] ry_def [symmetric] by simp
qed

lemma draw_line_loop_returns:
  assumes "line_inv x0 y0 x1 y1 dx sx dy sy err"
  shows "\<exists>r. draw_line_loop s x0 y0 x1 y1 color dx sx dy sy err = Some r"
  using assms
proof (induction "nat (\<bar>uint x1 - uint x0\<bar> + \<bar>uint y1 - uint y0\<bar>)"
    arbitrary: s x0 y0 err rule: less_induct)
  case less
  obtain st1 s1 where px: "ssd1306_draw_pixel s x0 y0 color = (st1, s1)" by (metis surj_pair)
  show ?case
  proof (cases "st1 \<noteq> SSD1306_OK \<or> (x0 = x1 \<and> y0 = y1)")
    case True
    then show ?thesis by (subst draw_line_loop.simps) (auto simp: px)
  next
    case False
    then have nf: "\<not> (x0 = x1 \<and> y0 = y1)" and ok: "st1 = SSD1306_OK" by simp_all
    let ?x0' = "if dy \<le> 2 * err then x0 + word_of_int sx else x0"
    let ?y0' = "if 2 * err \<le> dx then y0 + word_of_int sy else y0"
    let ?err' = "if 2 * err \<le> dx then (if dy \<le> 2 * err then err + dy else err) + dx
                 else (if dy \<le> 2 * err then err + dy else err)"
    from nf have nf': "(x0 = x1 \<and> y0 = y1) = False" by simp
    have unfold: "draw_line_loop s x0 y0 x1 y1 color dx sx dy sy err =
                  draw_line_loop s1 ?x0' ?y0' x1 y1 color dx sx dy sy ?err'"
      by (subst draw_line_loop.simps) (simp add: px Let_def nf' ok)
    from less.hyps [OF line_inv_step(2) [OF less.prems nf] line_inv_step(1) [OF less.prems nf]]
    show ?thesis unfolding unfold .
  qed
qed

lemma line_inv_init:
  "line_inv x0 y0 x1 y1 (ABS (uint x1 - uint x0)) (if x0 < x1 then 1 else - 1)
     (- ABS (uint y1 - uint y0)) (if y0 < y1 then 1 else - 1)
     (ABS (uint x1 - uint x0) + - ABS (uint y1 - uint y0))"
  by (auto simp: line_inv_def Let_def ABS_def word_less_def algebra_simps)

lemma draw_line_returns:
  "\<exists>r. ssd1306_draw_line s x0 y0 x1 y1 color = Some r"
  unfolding ssd1306_draw_line_def Let_def
  by (rule draw_line_loop_returns) (rule line_inv_init)

subsection \<open>White lines on a session that is not inverted\<close>

lemma keeps_lit_trans:
  assumes "keeps_lit s s1" "keeps_lit s1 s2"
  shows "keeps_lit s s2"
proof -
  from assms have e1: "s1 = s\<lparr>buffer := buffer s1\<rparr>" and e2: "s2 = s1\<lparr>buffer := buffer s2\<rparr>"
    by (simp_all add: keeps_lit_def)
  have "s2 = s\<lparr>buffer := buffer s2\<rparr>"
    by (subst e2, subst e1) simp
  moreover have "\<forall>a < 128. \<forall>b < 64. pixel_at (buffer s) a b \<longrightarrow> pixel_at (buffer s2) a b"
    using assms unfolding keeps_lit_def by blast
  moreover have "\<not> inverted s2" "buffer_ok s2" using assms(2) by (simp_all add: keeps_lit_def)
  ultimately show ?thesis unfolding keeps_lit_def by blast
qed

lemma draw_pixel_white_lit:
  assumes "\<not> inverted s" "buffer_ok s"
  shows "\<exists>s'. ssd1306_draw_pixel s x y SSD1306_COLOR_WHITE = (SSD1306_OK, s') \<and> keeps_lit s s' \<and>
           (unat x < 128 \<and> unat y < 64 \<longrightarrow> pixel_at (buffer s') (unat x) (unat y))"
proof (cases "unat x < 128 \<and> unat y < 64")
  case False
  then have "ssd1306_draw_pixel s x y SSD1306_COLOR_WHITE = (SSD1306_OK, s)"
    by (intro draw_pixel_outside) auto
  moreover have "keeps_lit s s" using assms by (simp add: keeps_lit_def)
  ultimately show ?thesis using False by blast
next
  case True
  let ?i = "pixel_index x y"
  let ?buf = "(buffer s)[?i := (buffer s ! ?i) OR pixel_mask y]"
  let ?s' = "s\<lparr>buffer := ?buf\<rparr>"
  have len: "length (buffer s) = 1024" using assms(2) by (simp add: buffer_ok_def consts_defs)
  have i_lt: "?i < 1024" using True by (simp add: pixel_index_less)
  have res: "ssd1306_draw_pixel s x y SSD1306_COLOR_WHITE = (SSD1306_OK, ?s')"
    using True assms(1) draw_pixel_inside [of x y SSD1306_COLOR_WHITE s]
    by (simp add: physical_bit_def)
  have mono: "pixel_at ?buf a b" if "a < 128" "b < 64" "pixel_at (buffer s) a b" for a b
  proof -
    have lt: "a + b div 8 * 128 < 1024" using that by (intro pixel_addr)
    show ?thesis
    proof (cases "a + b div 8 * 128 = ?i")
      case True
      then have "?buf ! (a + b div 8 * 128) = (buffer s ! (a + b div 8 * 128)) OR pixel_mask y"
        using len lt by simp
      then show ?thesis using that(3) by (simp add: pixel_at_def consts_defs bit_or_iff)
    next
      case False
      then have "?buf ! (a + b div 8 * 128) = buffer s ! (a + b div 8 * 128)" by simp
      then show ?thesis using that(3) by (simp add: pixel_at_def consts_defs)
    qed
  qed
  have lit: "pixel_at ?buf (unat x) (unat y)"
    using len i_lt
    by (simp add: pixel_at_def consts_defs pixel_index_eq [symmetric] bit_or_iff bit_pixel_mask)
  have "keeps_lit s ?s'"
    using assms mono len by (simp add: keeps_lit_def buffer_ok_def consts_defs)
  with res lit show ?thesis by (intro exI [of _ ?s']) simp
qed

lemma draw_line_loop_white:
  assumes "line_inv x0 y0 x1 y1 dx sx dy sy err" "\<not> inverted s" "buffer_ok s"
  shows "\<exists>s'. draw_line_loop s x0 y0 x1 y1 SSD1306_COLOR_WHITE dx sx dy sy err = Some (SSD1306_OK, s') \<and>
           keeps_lit s s' \<and>
           (unat x0 < 128 \<and> unat y0 < 64 \<longrightarrow> pixel_at (buffer s') (unat x0) (unat y0)) \<and>
           (unat x1 < 128 \<and> unat y1 < 64 \<longrightarrow> pixel_at (buffer s') (unat x1) (unat y1))"
  using assms
proof (induction "nat (\<bar>uint x1 - uint x0\<bar> + \<bar>uint y1 - uint y0\<bar>)"
    arbitrary: s x0 y0 err rule: less_induct)
  case less
  obtain s1 where px: "ssd1306_draw_pixel s x0 y0 SSD1306_COLOR_WHITE = (SSD1306_OK, s1)"
    and k1: "keeps_lit s s1"
    and l1: "unat x0 < 128 \<and> unat y0 < 64 \<longrightarrow> pixel_at (buffer s1) (unat x0) (unat y0)"
    using draw_pixel_white_lit [OF less.prems(2,3), of x0 y0] by blast
  show ?case
  proof (cases "x0 = x1 \<and> y0 = y1")
    case True
    have "draw_line_loop s x0 y0 x1 y1 SSD1306_COLOR_WHITE dx sx dy sy err = Some (SSD1306_OK, s1)"
      by (subst draw_line_loop.simps, simp only: px prod.case, simp add: True)
    with k1 l1 True show ?thesis by blast
  next
    case nf: False
    let ?x0' = "if dy \<le> 2 * err then x0 + word_of_int sx else x0"
    let ?y0' = "if 2 * err \<le> dx then y0 + word_of_int sy else y0"
    let ?err' = "if 2 * err \<le> dx then (if dy \<le> 2 * err then err + dy else err) + dx
                 else (if dy \<le> 2 * err then err + dy else err)"
    from nf have nf': "(x0 = x1 \<and> y0 = y1) = False" by simp
    have unfold: "draw_line_loop s x0 y0 x1 y1 SSD1306_COLOR_WHITE dx sx dy sy err =
                  draw_line_loop s1 ?x0' ?y0' x1 y1 SSD1306_COLOR_WHITE dx sx dy sy ?err'"
      by (subst draw_line_loop.simps) (simp add: px Let_def nf')
    have s1: "\<not> inverted s1" "buffer_ok s1" using k1 by (simp_all add: keeps_lit_def)
    from less.hyps [OF line_inv_step(2) [OF less.prems(1) nf] line_inv_step(1) [OF less.prems(1) nf] s1]
    obtain s' where
      r: "draw_line_loop s1 ?x0' ?y0' x1 y1 SSD1306_COLOR_WHITE dx sx dy sy ?err' = Some (SSD1306_OK, s')"
      and k2: "keeps_lit s1 s'"
      and l2: "unat x1 < 128 \<and> unat y1 < 64 \<longrightarrow> pixel_at (buffer s') (unat x1) (unat y1)"
      by blast
    have "keeps_lit s s'" using k1 k2 by (rule keeps_lit_trans)
    moreover have "unat x0 < 128 \<and> unat y0 < 64 \<longrightarrow> pixel_at (buffer s') (unat x0) (unat y0)"
      using l1 k2 by (auto simp: keeps_lit_def)
    ultimately show ?thesis using r l2 unfolding unfold by blast
  qed
qed

lemma draw_line_white_endpoints:
  assumes "\<not> inverted s" "buffer_ok s"
  shows "\<exists>s'. ssd1306_draw_line s x0 y0 x1 y1 SSD1306_COLOR_WHITE = Some (SSD1306_OK, s') \<and>
           keeps_lit s s' \<and>
           (unat x0 < 128 \<and> unat y0 < 64 \<longrightarrow> pixel_at (buffer s') (unat x0) (unat y0)) \<and>
           (unat x1 < 128 \<and> unat y1 < 64 \<longrightarrow> pixel_at (buffer s') (unat x1) (unat y1))"
  unfolding ssd1306_draw_line_def Let_def
  by (rule draw_line_loop_white [OF line_inv_init assms])

subsection \<open>The two lines from the origin\<close>

lemma line_instances:
  assumes "\<not> inverted s" "buffer s = replicate SSD1306_BUFFER_SIZE 0"
  shows "(\<exists>s'. ssd1306_draw_line s 0 0 0 0 SSD1306_COLOR_WHITE = Some (SSD1306_OK, s') \<and>
            (\<forall>x < 128. \<forall>y < 64. pixel_at (buffer s') x y \<longleftrightarrow> x = 0 \<and> y = 0) \<and>
            lit_pixels (buffer s') = {(0, 0)} \<and> card (lit_pixels (buffer s')) = 1) \<and>
         (\<exists>s'. ssd1306_draw_line s 0 0 10 0 SSD1306_COLOR_WHITE = Some (SSD1306_OK, s') \<and>
            (\<forall>x < 128. \<forall>y < 64. pixel_at (buffer s') x y \<longleftrightarrow> x \<le> 10 \<and> y = 0) \<and>
            lit_pixels (buffer s') = (\<lambda>x. (x, 0)) ` {0..10} \<and> card (lit_pixels (buffer s')) = 11)"
proof -
  have buf: "buffer s = replicate 1024 0" using assms(2) by (simp add: consts_defs)
  let ?b1 = "(replicate 1024 (0::u8))[0 := 1]"
  let ?b2 = "(replicate 1024 (0::u8))[0 := 1, 1 := 1, 2 := 1, 3 := 1, 4 := 1,
              5 := 1, 6 := 1, 7 := 1, 8 := 1, 9 := 1, 10 := 1]"
  have bit01: "bit (if c then 1 else 0 :: u8) k \<longleftrightarrow> c \<and> k = 0" for c k
    by (simp add: bit_1_iff)
  have p1: "pixel_at ?b1 x y \<longleftrightarrow> x = 0 \<and> y = 0" if "x < 128" "y < 64" for x y
  proof -
    have idx: "x + y div 8 * 128 < 1024" using that by (rule pixel_addr)
    have "pixel_at ?b1 x y \<longleftrightarrow> x + y div 8 * 128 \<le> 0 \<and> y mod 8 = 0"
      by (simp only: pixel_at_def SSD1306_PXL_WIDTH_def point_buffer_nth [OF idx] bit01)
    also have "\<dots> \<longleftrightarrow> x \<le> 0 \<and> y = 0" using that(1) by (intro pixel_row0) simp_all
    finally show ?thesis by simp
  qed
  have p2: "pixel_at ?b2 x y \<longleftrightarrow> x \<le> 10 \<and> y = 0" if "x < 128" "y < 64" for x y
  proof -
    have idx: "x + y div 8 * 128 < 1024" using that by (rule pixel_addr)
    have "pixel_at ?b2 x y \<longleftrightarrow> x + y div 8 * 128 \<le> 10 \<and> y mod 8 = 0"
      by (simp only: pixel_at_def SSD1306_PXL_WIDTH_def row_buffer_nth [OF idx] bit01)
    also have "\<dots> \<longleftrightarrow> x \<le> 10 \<and> y = 0" using that(1) by (intro pixel_row0) simp_all
    finally show ?thesis .
  qed
  have l1: "lit_pixels ?b1 = {(0, 0)}"
    unfolding lit_pixels_def using p1 by (auto simp: consts_defs)
  have l2: "lit_pixels ?b2 = (\<lambda>x. (x, 0)) ` {0..10}"
    unfolding lit_pixels_def using p2 by (auto simp: consts_defs)
  have c2: "card ((\<lambda>x. (x, 0::nat)) ` {0..10::nat}) = 11"
    by (subst card_image) (auto simp: inj_on_def)
  show ?thesis
  proof (intro conjI)
    show "\<exists>s'. ssd1306_draw_line s 0 0 0 0 SSD1306_COLOR_WHITE = Some (SSD1306_OK, s') \<and>
            (\<forall>x < 128. \<forall>y < 64. pixel_at (buffer s') x y \<longleftrightarrow> x = 0 \<and> y = 0) \<and>
            lit_pixels (buffer s') = {(0, 0)} \<and> card (lit_pixels (buffer s')) = 1"
      apply (rule exI [of _ "s\<lparr>buffer := ?b1\<rparr>"])
      using line_point [OF assms(1) buf] p1 l1 by simp
    show "\<exists>s'. ssd1306_draw_line s 0 0 10 0 SSD1306_COLOR_WHITE = Some (SSD1306_OK, s') \<and>
            (\<forall>x < 128. \<forall>y < 64. pixel_at (buffer s') x y \<longleftrightarrow> x \<le> 10 \<and> y = 0) \<and>
            lit_pixels (buffer s') = (\<lambda>x. (x, 0)) ` {0..10} \<and> card (lit_pixels (buffer s')) = 11"
      apply (rule exI [of _ "s\<lparr>buffer := ?b2\<rparr>"])
      using line_10 [OF assms(1) buf] p2 l2 c2 by simp
  qed
qed

text \<open>
  \<^bold>\<open>C8.\<close> The line primitive includes both end points: on a session that is not inverted,
  a white line between any two points returns OK and leaves both end points lit (those
  inside the display). On a cleared buffer the white line from \<open>(0,0)\<close> to \<open>(0,0)\<close> sets
  exactly one pixel, \<open>(0,0)\<close>, and the white line from \<open>(0,0)\<close> to \<open>(10,0)\<close> sets exactly 11
  pixels, those with \<open>y = 0\<close> and \<open>x\<close> from 0 to 10.
\<close>

theorem line_endpoints_inclusive:
  assumes "\<not> inverted s" "buffer_ok s"
  shows "(\<exists>s'. ssd1306_draw_line s x0 y0 x1 y1 SSD1306_COLOR_WHITE = Some (SSD1306_OK, s') \<and>
            (unat x0 < 128 \<and> unat y0 < 64 \<longrightarrow> pixel_at (buffer s') (unat x0) (unat y0)) \<and>
            (unat x1 < 128 \<and> unat y1 < 64 \<longrightarrow> pixel_at (buffer s') (unat x1) (unat y1))) \<and>
         (buffer s = replicate SSD1306_BUFFER_SIZE 0 \<longrightarrow>
           (\<exists>s'. ssd1306_draw_line s 0 0 0 0 SSD1306_COLOR_WHITE = Some (SSD1306_OK, s') \<and>
              (\<forall>x < 128. \<forall>y < 64. pixel_at (buffer s') x y \<longleftrightarrow> x = 0 \<and> y = 0) \<and>
              lit_pixels (buffer s') = {(0, 0)} \<and> card (lit_pixels (buffer s')) = 1) \<and>
           (\<exists>s'. ssd1306_draw_line s 0 0 10 0 SSD1306_COLOR_WHITE = Some (SSD1306_OK, s') \<and>
              (\<forall>x < 128. \<forall>y < 64. pixel_at (buffer s') x y \<longleftrightarrow> x \<le> 10 \<and> y = 0) \<and>
              lit_pixels (buffer s') = (\<lambda>x. (x, 0)) ` {0..10} \<and>
              card (lit_pixels (buffer s')) = 11))"
proof (intro conjI impI)
  from draw_line_white_endpoints [OF assms, of x0 y0 x1 y1]
  show "\<exists>s'. ssd1306_draw_line s x0 y0 x1 y1 SSD1306_COLOR_WHITE = Some (SSD1306_OK, s') \<and>
            (unat x0 < 128 \<and> unat y0 < 64 \<longrightarrow> pixel_at (buffer s') (unat x0) (unat y0)) \<and>
            (unat x1 < 128 \<and> unat y1 < 64 \<longrightarrow> pixel_at (buffer s') (unat x1) (unat y1))"
    by blast
next
  assume cleared: "buffer s = replicate SSD1306_BUFFER_SIZE 0"
  show "\<exists>s'. ssd1306_draw_line s 0 0 0 0 SSD1306_COLOR_WHITE = Some (SSD1306_OK, s') \<and>
              (\<forall>x < 128. \<forall>y < 64. pixel_at (buffer s') x y \<longleftrightarrow> x = 0 \<and> y = 0) \<and>
              lit_pixels (buffer s') = {(0, 0)} \<and> card (lit_pixels (buffer s')) = 1"
    by (rule line_instances [OF assms(1) cleared, THEN conjunct1])
  show "\<exists>s'. ssd1306_draw_line s 0 0 10 0 SSD1306_COLOR_WHITE = Some (SSD1306_OK, s') \<and>
              (\<forall>x < 128. \<forall>y < 64. pixel_at (buffer s') x y \<longleftrightarrow> x \<le> 10 \<and> y = 0) \<and>
              lit_pixels (buffer s') = (\<lambda>x. (x, 0)) ` {0..10} \<and>
              card (lit_pixels (buffer s')) = 11"
    by (rule line_instances [OF assms(1) cleared, THEN conjunct2])
qed

theorem line_endpoints_inclusive_witness:
  "\<not> inverted ready \<and> buffer_ok ready \<and> buffer ready = replicate SSD1306_BUFFER_SIZE 0 \<and>
   (\<exists>s'. ssd1306_draw_line ready 0 0 10 0 SSD1306_COLOR_WHITE = Some (SSD1306_OK, s') \<and>
         pixel_at (buffer s') 10 0 \<and> \<not> pixel_at (buffer s') 11 0 \<and> \<not> pixel_at (buffer s') 10 1 \<and>
         card (lit_pixels (buffer s')) = 11) \<and>
   (\<exists>s'. ssd1306_draw_line ready 3 60 120 7 SSD1306_COLOR_WHITE = Some (SSD1306_OK, s') \<and>
         pixel_at (buffer s') 3 60 \<and> pixel_at (buffer s') 120 7)"
proof -
  have h1: "\<not> inverted ready" and h2: "buffer_ok ready" by (rule ready_simps)+
  have h3: "buffer ready = replicate SSD1306_BUFFER_SIZE 0" by (simp add: ready_simps consts_defs)
  have "\<exists>s'. ssd1306_draw_line ready 0 0 10 0 SSD1306_COLOR_WHITE = Some (SSD1306_OK, s') \<and>
            (\<forall>x < 128. \<forall>y < 64. pixel_at (buffer s') x y \<longleftrightarrow> x \<le> 10 \<and> y = 0) \<and>
            lit_pixels (buffer s') = (\<lambda>x. (x, 0)) ` {0..10} \<and> card (lit_pixels (buffer s')) = 11"
    by (rule line_endpoints_inclusive [OF h1 h2, THEN conjunct2, THEN mp, OF h3, THEN conjunct2])
  then obtain s' where res: "ssd1306_draw_line ready 0 0 10 0 SSD1306_COLOR_WHITE = Some (SSD1306_OK, s')"
    and px: "\<forall>x<128. \<forall>y<64. pixel_at (buffer s') x y = (x \<le> 10 \<and> y = 0)"
    and cd: "card (lit_pixels (buffer s')) = 11"
    by (elim exE conjE)
  have p1: "pixel_at (buffer s') 10 0" using px [rule_format, of 10 0] by simp
  have p2: "\<not> pixel_at (buffer s') 11 0" using px [rule_format, of 11 0] by simp
  have p3: "\<not> pixel_at (buffer s') 10 1" using px [rule_format, of 10 1] by simp
  have first: "\<exists>s'. ssd1306_draw_line ready 0 0 10 0 SSD1306_COLOR_WHITE = Some (SSD1306_OK, s') \<and>
         pixel_at (buffer s') 10 0 \<and> \<not> pixel_at (buffer s') 11 0 \<and> \<not> pixel_at (buffer s') 10 1 \<and>
         card (lit_pixels (buffer s')) = 11"
    by (intro conjI exI [of _ s'] res p1 p2 p3 cd)
  have second: "\<exists>s'. ssd1306_draw_line ready 3 60 120 7 SSD1306_COLOR_WHITE = Some (SSD1306_OK, s') \<and>
         pixel_at (buffer s') 3 60 \<and> pixel_at (buffer s') 120 7"
    using line_endpoints_inclusive [OF h1 h2, THEN conjunct1, of 3 60 120 7] by simp
  show ?thesis by (intro conjI h1 h2 h3 first second)
qed

section \<open>Framing of the transmissions\<close>

lemma emitsI:
  assumes "snd (snd r) = wire @ new" "list_all P new"
  shows "emits P wire r"
  using assms by (simp add: emits_def new_frames_def)

lemma emitsE:
  assumes "emits P wire r"
  obtains new where "snd (snd r) = wire @ new" "list_all P new"
proof -
  have "snd (snd r) = take (length wire) (snd (snd r)) @ drop (length wire) (snd (snd r))" by simp
  with assms show ?thesis using that by (simp add: emits_def new_frames_def)
qed

lemma emits_refl: "emits P wire (st, s, wire)"
  by (rule emitsI [where new = "[]"]) simp_all

lemma emits_seq:
  assumes "emits P wire a"
    and "\<And>st s1 w1. a = (st, s1, w1) \<Longrightarrow> emits P w1 (b st s1 w1)"
  shows "emits P wire (case a of (st, s1, w1) \<Rightarrow> if st \<noteq> SSD1306_OK then (st, s1, w1) else b st s1 w1)"
proof -
  obtain st s1 w1 where a: "a = (st, s1, w1)" by (metis prod_cases3)
  from assms(1) obtain n1 where n1: "w1 = wire @ n1" "list_all P n1"
    unfolding a by (auto elim: emitsE)
  from assms(2) [OF a] obtain n2 where n2: "snd (snd (b st s1 w1)) = w1 @ n2" "list_all P n2"
    by (auto elim: emitsE)
  show ?thesis
  proof (cases "st = SSD1306_OK")
    case True
    have "emits P wire (b st s1 w1)"
      by (rule emitsI [where new = "n1 @ n2"]) (use n1 n2 in simp_all)
    with True show ?thesis by (simp add: a)
  next
    case False
    then show ?thesis using assms(1) by (simp add: a)
  qed
qed

lemma cmd_write_emits: "emits cmd_framed wire (ssd1306_cmd_write i2c s wire cmd)"
  by (simp add: ssd1306_cmd_write_def i2c_call_def emits_def new_frames_def cmd_framed_def consts_defs Let_def)

lemma cmd_write_multi_emits:
  "emits cmd_framed wire (ssd1306_cmd_write_multi i2c s wire (SSD1306_CMD_CONTROL_BYTE # rest))"
  by (simp add: ssd1306_cmd_write_multi_def i2c_call_def emits_def new_frames_def cmd_framed_def consts_defs)

lemma data_write_emits: "emits data_framed wire (ssd1306_data_write i2c s wire data)"
  by (simp add: ssd1306_data_write_def i2c_call_def emits_def new_frames_def data_framed_def consts_defs Let_def)

lemma display_on_emits: "emits cmd_framed wire (ssd1306_display_on i2c s wire)"
  unfolding ssd1306_display_on_def Let_def
  by (rule emits_seq [OF cmd_write_multi_emits]) (rule emits_refl)

lemma display_off_emits: "emits cmd_framed wire (ssd1306_display_off i2c s wire)"
  unfolding ssd1306_display_off_def Let_def
  by (rule emits_seq [OF cmd_write_multi_emits]) (rule emits_refl)

lemma set_contrast_emits: "emits cmd_framed wire (ssd1306_set_contrast i2c s wire c)"
  unfolding ssd1306_set_contrast_def Let_def
  by (rule emits_seq [OF cmd_write_multi_emits]) (rule emits_refl)

lemma set_inversion_emits: "emits cmd_framed wire (ssd1306_set_inversion i2c s wire b)"
  unfolding ssd1306_set_inversion_def Let_def
  by (rule emits_seq [OF cmd_write_multi_emits]) (rule emits_refl)

lemma set_scroll_status_emits: "emits cmd_framed wire (ssd1306_set_scroll_status i2c s wire b)"
  unfolding ssd1306_set_scroll_status_def Let_def
  by (rule emits_seq [OF cmd_write_multi_emits]) (rule emits_refl)

lemma scroll_tail_emits: "emits cmd_framed wire (scroll_tail i2c s wire type)"
  unfolding scroll_tail_def Let_def
  by (auto intro!: emits_seq cmd_write_emits emits_refl)

lemma scroll_emits: "emits cmd_framed wire (ssd1306_scroll i2c s wire type sp ep iv)"
  unfolding ssd1306_scroll_def Let_def
  by (auto intro!: emits_seq cmd_write_multi_emits scroll_tail_emits set_scroll_status_emits emits_refl)

lemma update_pages_emits: "emits data_framed wire (update_pages i2c s wire ps)"
proof (induction ps arbitrary: s wire)
  case Nil
  show ?case by (simp add: emits_refl)
next
  case (Cons p ps)
  show ?case
    unfolding update_pages.simps Let_def
    by (rule emits_seq [OF data_write_emits]) (rule Cons.IH)
qed

lemma update_emits: "emits data_framed wire (ssd1306_update i2c s wire)"
  by (simp add: ssd1306_update_def update_pages_emits)

lemma mixed_of_cmds: "emits cmd_framed wire r \<Longrightarrow> mixed wire r"
  unfolding mixed_def by (erule emitsE) (rule exI [of _ "_"], rule exI [of _ "[]"], simp)

lemma mixed_of_data: "emits data_framed wire r \<Longrightarrow> mixed wire r"
  unfolding mixed_def by (erule emitsE) (rule exI [of _ "[]"], simp)

lemma mixed_seq:
  assumes "emits cmd_framed wire a"
    and "\<And>st s1 w1. a = (st, s1, w1) \<Longrightarrow> mixed w1 (b st s1 w1)"
  shows "mixed wire (case a of (st, s1, w1) \<Rightarrow> if st \<noteq> SSD1306_OK then (st, s1, w1) else b st s1 w1)"
proof -
  obtain st s1 w1 where a: "a = (st, s1, w1)" by (metis prod_cases3)
  from assms(1) obtain n1 where n1: "w1 = wire @ n1" "list_all cmd_framed n1"
    unfolding a by (auto elim: emitsE)
  from assms(2) [OF a] obtain cs ds where n2:
    "snd (snd (b st s1 w1)) = w1 @ cs @ ds" "list_all cmd_framed cs" "list_all data_framed ds"
    unfolding mixed_def by blast
  show ?thesis
  proof (cases "st = SSD1306_OK")
    case True
    have "mixed wire (b st s1 w1)"
      unfolding mixed_def
      by (rule exI [of _ "n1 @ cs"], rule exI [of _ ds]) (use n1 n2 in simp)
    with True show ?thesis by (simp add: a)
  next
    case False
    then show ?thesis using assms(1) by (simp add: a mixed_of_cmds)
  qed
qed

lemma mixed_cmds_then_data:
  assumes "mixed wire r"
  shows "emits_cmds_then_data wire r"
proof -
  from assms obtain cs ds where r: "snd (snd r) = wire @ cs @ ds"
    and cs: "list_all cmd_framed cs" and ds: "list_all data_framed ds"
    unfolding mixed_def by blast
  from cs have "dropWhile cmd_framed (cs @ ds) = dropWhile cmd_framed ds"
    by (simp add: dropWhile_append list_all_iff)
  moreover have "list_all data_framed (dropWhile cmd_framed ds)"
    using ds by (auto simp: list_all_iff dest: set_dropWhileD)
  ultimately show ?thesis using r by (simp add: emits_cmds_then_data_def new_frames_def)
qed

lemma emits_tail:
  assumes "emits P wire a"
  shows "emits P wire (case a of (st, s1, w1) \<Rightarrow>
            if st \<noteq> SSD1306_OK then (st, s1, w1) else (SSD1306_OK, s1, w1))"
  using assms by (rule emits_seq) (rule emits_refl)

lemma mixed_tail:
  assumes "mixed wire a"
  shows "mixed wire (case a of (st, s1, w1) \<Rightarrow>
            if st \<noteq> SSD1306_OK then (st, s1, w1) else (SSD1306_OK, s1, w1))"
proof -
  obtain st s1 w1 where a: "a = (st, s1, w1)" by (metis prod_cases3)
  show ?thesis using assms unfolding a by (simp add: mixed_def)
qed

lemma clear_display_mixed: "mixed wire (ssd1306_clear_display i2c s wire)"
  unfolding ssd1306_clear_display_def Let_def
proof (rule mixed_seq [OF set_inversion_emits])
  fix st s1 w1
  obtain st2 s2 where fill: "ssd1306_draw_fill s1 SSD1306_COLOR_BLACK = (st2, s2)"
    by (metis surj_pair)
  have m1: "mixed w1 (case ssd1306_update i2c s2 w1 of
             (status3, s3, wire3) \<Rightarrow>
               if status3 \<noteq> SSD1306_OK then (status3, s3, wire3) else (SSD1306_OK, s3, wire3))"
    by (rule mixed_of_data, rule emits_tail, rule update_emits)
  have m2: "mixed w1 (st2, s2, w1)"
    by (rule mixed_of_cmds, rule emits_refl)
  show "mixed w1
          (case ssd1306_draw_fill s1 SSD1306_COLOR_BLACK of
             (status2, s2) \<Rightarrow>
               if status2 \<noteq> SSD1306_OK then (status2, s2, w1)
               else case ssd1306_update i2c s2 w1 of
                      (status3, s3, wire3) \<Rightarrow>
                        if status3 \<noteq> SSD1306_OK then (status3, s3, wire3)
                        else (SSD1306_OK, s3, wire3))"
  proof (cases "st2 = SSD1306_OK")
    case True
    then have c: "(st2 \<noteq> SSD1306_OK) = False" by simp
    show ?thesis unfolding fill prod.case c if_False by (rule m1)
  next
    case False
    then have c: "(st2 \<noteq> SSD1306_OK) = True" by simp
    show ?thesis unfolding fill prod.case c if_True by (rule m2)
  qed
qed

lemma init_mixed: "mixed wire (ssd1306_init i2c wire channel addr)"
  unfolding ssd1306_init_def Let_def init_cmd_list_def
  by (intro mixed_seq display_off_emits set_inversion_emits set_contrast_emits
      set_scroll_status_emits cmd_write_multi_emits display_on_emits
      mixed_tail clear_display_mixed)

section \<open>Integers as text\<close>

lemma draw_int_digits_eq:
  assumes "2 \<le> b"
  shows "draw_int_digits n b acc = Some (acc @ repeated_division n b)"
  using assms
proof (induction n b arbitrary: acc rule: repeated_division.induct)
  case (1 n b)
  show ?case
  proof (cases "n = 0")
    case True
    then show ?thesis by (subst draw_int_digits.simps, subst repeated_division.simps) simp
  next
    case False
    with "1.prems" have "draw_int_digits (n div b) b (acc @ [digit_char (n mod b)]) =
        Some ((acc @ [digit_char (n mod b)]) @ repeated_division (n div b) b)"
      by (intro "1.IH") auto
    with False "1.prems" show ?thesis
      by (subst draw_int_digits.simps, subst repeated_division.simps) simp
  qed
qed

lemma draw_int_swap_nth:
  assumes "en < length buf"
  shows "length (draw_int_swap buf st en) = length buf \<and>
         (\<forall>i < length buf. draw_int_swap buf st en ! i =
             (if st \<le> i \<and> i \<le> en then buf ! (st + en - i) else buf ! i))"
  using assms
proof (induction buf st en rule: draw_int_swap.induct)
  case (1 buf st en)
  show ?case
  proof (cases "st < en")
    case False
    then have "draw_int_swap buf st en = buf" by (subst draw_int_swap.simps) simp
    moreover have "st + en - i = i" if "st \<le> i" "i \<le> en" for i using that False by simp
    ultimately show ?thesis by simp
  next
    case True
    let ?buf' = "buf[st := buf ! en, en := buf ! st]"
    have len: "en - 1 < length ?buf'" using "1.prems" by simp
    note IH = "1.IH" [OF True len]
    have unfold: "draw_int_swap buf st en = draw_int_swap ?buf' (st + 1) (en - 1)"
      using True by (subst draw_int_swap.simps) simp
    have "draw_int_swap buf st en ! i = (if st \<le> i \<and> i \<le> en then buf ! (st + en - i) else buf ! i)"
      if "i < length buf" for i
    proof -
      have "draw_int_swap buf st en ! i =
            (if st + 1 \<le> i \<and> i \<le> en - 1 then ?buf' ! (st + 1 + (en - 1) - i) else ?buf' ! i)"
        using IH that unfolding unfold by simp
      then show ?thesis using True "1.prems" that
        by (auto simp: nth_list_update)
    qed
    moreover have "length (draw_int_swap buf st en) = length buf"
      using IH unfolding unfold by simp
    ultimately show ?thesis by simp
  qed
qed

lemma draw_int_swap_rev:
  assumes "buf \<noteq> []"
  shows "draw_int_swap buf 0 (length buf - 1) = rev buf"
proof (rule nth_equalityI)
  have lt: "length buf - 1 < length buf" using assms by simp
  note sw = draw_int_swap_nth [OF lt, of 0]
  show "length (draw_int_swap buf 0 (length buf - 1)) = length (rev buf)" using sw by simp
  fix i assume "i < length (draw_int_swap buf 0 (length buf - 1))"
  then have i: "i < length buf" using sw by simp
  then have "i \<le> length buf - 1" by simp
  with i have "draw_int_swap buf 0 (length buf - 1) ! i = buf ! (0 + (length buf - 1) - i)"
    using sw by simp
  also have "\<dots> = rev buf ! i" using i by (simp add: rev_nth)
  finally show "draw_int_swap buf 0 (length buf - 1) ! i = rev buf ! i" .
qed

lemma digit_char_not_nul:
  assumes "d < 32"
  shows "digit_char d \<noteq> CHR 0x00"
proof
  assume "digit_char d = CHR 0x00"
  then have "of_char (digit_char d) = (0::nat)" by simp
  then show False using assms
    by (simp add: digit_char_def of_char_of split: if_splits)
qed

lemma repeated_division_not_nul:
  assumes "b \<le> 32"
  shows "CHR 0x00 \<notin> set (repeated_division n b)"
  using assms
proof (induction n b rule: repeated_division.induct)
  case (1 n b)
  show ?case
  proof (cases "n = 0 \<or> b < 2")
    case True
    then show ?thesis by (subst repeated_division.simps) simp
  next
    case False
    then have "n mod b < b" by simp
    then have "n mod b < 32" using "1.prems" by simp
    then have "digit_char (n mod b) \<noteq> CHR 0x00" by (rule digit_char_not_nul)
    moreover have "CHR 0x00 \<notin> set (repeated_division (n div b) b)"
      using False "1.prems" by (intro "1.IH") auto
    ultimately show ?thesis using False by (subst repeated_division.simps) auto
  qed
qed


lemma repeated_division_nonempty:
  assumes "0 < n" "2 \<le> b"
  shows "repeated_division n b \<noteq> []"
  using assms by (subst repeated_division.simps) simp

lemma c_strlen_prefix_id:
  assumes "CHR 0x00 \<notin> set str"
  shows "c_strlen_prefix str = str"
  using assms by (auto simp: c_strlen_prefix_def takeWhile_eq_all_conv)

lemma sign10_string_not_nul:
  assumes "b \<le> 32"
  shows "CHR 0x00 \<notin> set (sign10_string num b)"
  using repeated_division_not_nul [OF assms]
  by (simp add: sign10_string_def base_digits_def)

lemma draw_int_str_buf_eq:
  assumes "sint num \<noteq> - (2 ^ 31)" "2 \<le> base" "base \<le> 32"
  shows "draw_int_str_buf num base = Some (sign10_string (sint num) (unat base))"
proof (cases "sint num = 0")
  case True
  then show ?thesis by (simp add: draw_int_str_buf_def sign10_string_def)
next
  case False
  let ?n = "nat \<bar>sint num\<bar>"
  let ?b = "unat base"
  let ?sign = "if sint num < 0 \<and> base = 10 then ''-'' else []"
  have b2: "2 \<le> ?b" using assms(2) by (simp add: word_le_nat_alt)
  have n0: "0 < ?n" using False by simp
  have abs: "nat (ABS (sint num)) = ?n" by (simp add: ABS_def)
  have b10: "(base = 10) = (?b = 10)" using word_unat_eq_iff [of base 10] by simp
  have digits: "draw_int_digits ?n ?b [] = Some (repeated_division ?n ?b)"
    using draw_int_digits_eq [OF b2, of ?n "[]"] by simp
  let ?buf = "repeated_division ?n ?b @ ?sign"
  have ne: "?buf \<noteq> []" using repeated_division_nonempty [OF n0 b2] by simp
  have "draw_int_str_buf num base = Some (draw_int_swap ?buf 0 (length ?buf - 1))"
    using False assms(1) by (simp add: draw_int_str_buf_def abs digits Let_def)
  also have "draw_int_swap ?buf 0 (length ?buf - 1) = rev ?buf"
    by (rule draw_int_swap_rev [OF ne])
  also have "rev ?buf = sign10_string (sint num) ?b"
    using False by (simp add: sign10_string_def base_digits_def b10)
  finally show ?thesis .
qed

lemma draw_char_dot:
  "\<exists>buf. ssd1306_draw_char dot_fonts s ch 0 SSD1306_COLOR_WHITE =
          Some (SSD1306_OK, s\<lparr>buffer := buf, x_pos := x_pos s + 1\<rparr>)"
proof -
  have w: "font_width dot_font = 1" and h: "font_height dot_font = 1"
    by (simp_all add: dot_font_def)
  have line: "char_line_of dot_font ch 0 = 0x8000"
    by (simp add: char_line_of_def dot_font_def)
  obtain buf where px:
    "ssd1306_draw_pixel s (x_pos s) (y_pos s) SSD1306_COLOR_WHITE = (SSD1306_OK, s\<lparr>buffer := buf\<rparr>)"
    using draw_pixel_buffer_only [of SSD1306_COLOR_WHITE s "x_pos s" "y_pos s"] by blast
  have row: "draw_char_row s 0x8000 0 SSD1306_COLOR_WHITE [0] = (SSD1306_OK, s\<lparr>buffer := buf\<rparr>)"
    by (simp add: px)
  have rows: "draw_char_rows dot_font s ch SSD1306_COLOR_WHITE [0] = (SSD1306_OK, s\<lparr>buffer := buf\<rparr>)"
    by (simp add: line w px)
  have "ssd1306_draw_char dot_fonts s ch 0 SSD1306_COLOR_WHITE =
          Some (SSD1306_OK, s\<lparr>buffer := buf, x_pos := x_pos s + 1\<rparr>)"
    by (simp add: ssd1306_draw_char_def dot_fonts_def h w line px)
  then show ?thesis by blast
qed

lemma draw_str_dot:
  "\<exists>buf. ssd1306_draw_str dot_fonts s str 0 SSD1306_COLOR_WHITE =
          Some (SSD1306_OK, s\<lparr>buffer := buf, x_pos := x_pos s + of_nat (length str)\<rparr>)"
proof (induction str arbitrary: s)
  case Nil
  have "ssd1306_draw_str dot_fonts s [] 0 SSD1306_COLOR_WHITE =
        Some (SSD1306_OK, s\<lparr>buffer := buffer s, x_pos := x_pos s + of_nat (length [])\<rparr>)"
    by simp
  then show ?case by blast
next
  case (Cons ch str)
  obtain b1 where c: "ssd1306_draw_char dot_fonts s ch 0 SSD1306_COLOR_WHITE =
          Some (SSD1306_OK, s\<lparr>buffer := b1, x_pos := x_pos s + 1\<rparr>)"
    using draw_char_dot by blast
  obtain b2 where r: "ssd1306_draw_str dot_fonts (s\<lparr>buffer := b1, x_pos := x_pos s + 1\<rparr>) str 0 SSD1306_COLOR_WHITE =
          Some (SSD1306_OK, s\<lparr>buffer := b1, x_pos := x_pos s + 1\<rparr>
                  \<lparr>buffer := b2, x_pos := x_pos (s\<lparr>buffer := b1, x_pos := x_pos s + 1\<rparr>) + of_nat (length str)\<rparr>)"
    using Cons.IH by blast
  have "ssd1306_draw_str dot_fonts s (ch # str) 0 SSD1306_COLOR_WHITE =
        Some (SSD1306_OK, s\<lparr>buffer := b2, x_pos := x_pos s + of_nat (length (ch # str))\<rparr>)"
    by (simp add: c r add.assoc)
  then show ?case by blast
qed

section \<open>What the operations hand to the transport\<close>

lemma update_always_ok:
  assumes "initialized s" "buffer_ok s"
  shows "ssd1306_update i2c_always_ok s wire = (SSD1306_OK, s, wire @ map (page_frame s) [0..<8])"
  using update_pages_ok [OF assms, of i2c_always_ok wire "[0..<8]"]
  by (simp add: ssd1306_update_def consts_defs i2c_always_ok_def)

lemma init_always_ok_frames:
  "map (\<lambda>f. hd (snd (snd f))) (new_frames [] (ssd1306_init i2c_always_ok [] 0 0x78)) =
     replicate 7 0x00 @ replicate 8 0x40"
proof -
  let ?s = "zeroed\<lparr>i2c_channel := 0, i2c_addr := 0x78, initialized := True\<rparr>"
  have s: "initialized ?s" "buffer_ok ?s" "memset_buffer ?s 0 = ?s" "\<not> inverted ?s"
    "?s\<lparr>inverted := False\<rparr> = ?s" "?s\<lparr>scrolling := False\<rparr> = ?s"
    by (simp_all add: zeroed_def buffer_ok_def memset_buffer_def)
  have hd_page: "(\<lambda>f. hd (snd (snd f))) \<circ> page_frame ?s = (\<lambda>p. 0x40)"
    by (rule ext) (simp add: page_frame_def)
  have "snd (snd (ssd1306_init i2c_always_ok [] 0 0x78)) =
      [(0, 0x78, [0x00, 0x8D, 0x10, 0xAE]), (0, 0x78, [0x00, 0xA6]), (0, 0x78, [0x00, 0x81, 0xFF]),
       (0, 0x78, [0x00, 0x2E]), (0, 0x78, init_cmd_list), (0, 0x78, [0x00, 0x8D, 0x14, 0xAF]),
       (0, 0x78, [0x00, 0xA6])] @ map (page_frame ?s) [0..<8]"
    by (simp add: ssd1306_init_def ssd1306_display_off_def ssd1306_display_on_def
        ssd1306_set_inversion_def ssd1306_set_contrast_def ssd1306_set_scroll_status_def
        ssd1306_clear_display_def ssd1306_draw_fill_def ssd1306_cmd_write_multi_def
        i2c_call_def i2c_always_ok_def SSD1306_CMD_CONTROL_BYTE_def SSD1306_COLOR_BLACK_def
        cmd_defs s update_always_ok Let_def del: upt_Suc)
  then show ?thesis
    by (simp add: new_frames_def init_cmd_list_def SSD1306_CMD_CONTROL_BYTE_def hd_page
        map_replicate_const del: upt_Suc replicate_Suc) (simp add: numeral_eq_Suc)
qed

text \<open>
  \<^bold>\<open>C5.\<close> Every byte sequence the driver hands to the transport is framed: the frame of
  a single command, the frame of a command list that starts with the command control
  byte, and every frame added by display on, display off, set contrast, set inversion,
  set scroll status and scroll starts with \<open>0x00\<close>; the frame of a data write and every
  frame added by update starts with \<open>0x40\<close>; clear display and initialization add command
  frames starting with \<open>0x00\<close> followed by data frames starting with \<open>0x40\<close>. No operation
  changes the frames already on the wire.
\<close>

theorem transmissions_are_framed:
  "emits cmd_framed wire (ssd1306_cmd_write i2c s wire cmd) \<and>
   emits cmd_framed wire (ssd1306_cmd_write_multi i2c s wire (SSD1306_CMD_CONTROL_BYTE # rest)) \<and>
   emits data_framed wire (ssd1306_data_write i2c s wire data) \<and>
   emits cmd_framed wire (ssd1306_display_on i2c s wire) \<and>
   emits cmd_framed wire (ssd1306_display_off i2c s wire) \<and>
   emits cmd_framed wire (ssd1306_set_contrast i2c s wire contrast_value) \<and>
   emits cmd_framed wire (ssd1306_set_inversion i2c s wire is_inverted) \<and>
   emits cmd_framed wire (ssd1306_set_scroll_status i2c s wire is_scrolling) \<and>
   emits cmd_framed wire (ssd1306_scroll i2c s wire type start_page end_page interval) \<and>
   emits data_framed wire (ssd1306_update i2c s wire) \<and>
   emits_cmds_then_data wire (ssd1306_clear_display i2c s wire) \<and>
   emits_cmds_then_data wire (ssd1306_init i2c wire channel addr)"
  by (intro conjI cmd_write_emits cmd_write_multi_emits data_write_emits display_on_emits
      display_off_emits set_contrast_emits set_inversion_emits set_scroll_status_emits
      scroll_emits update_emits mixed_cmds_then_data clear_display_mixed init_mixed)

theorem transmissions_are_framed_witness:
  "emits_cmds_then_data [] (ssd1306_init i2c_always_ok [] 0 0x78) \<and>
   map (\<lambda>f. hd (snd (snd f))) (new_frames [] (ssd1306_init i2c_always_ok [] 0 0x78)) =
     replicate 7 0x00 @ replicate 8 0x40"
proof -
  show ?thesis
    using init_always_ok_frames transmissions_are_framed [where wire = "[]" and i2c = i2c_always_ok and channel = 0 and addr = "0x78"]
    by simp
qed

section \<open>Sessions that are not initialized\<close>

lemma cmd_write_multi_noinit:
  "\<not> initialized s \<Longrightarrow> ssd1306_cmd_write_multi i2c s wire l = (SSD1306_NOINIT, s, wire)"
  by (simp add: ssd1306_cmd_write_multi_def)

lemma update_noinit:
  assumes "\<not> initialized s"
  shows "ssd1306_update i2c s wire = (SSD1306_NOINIT, s, wire)"
proof -
  have "[0..<SSD1306_NUM_PAGES] = 0 # [1..<8]" by (simp add: consts_defs upt_conv_Cons)
  then show ?thesis using assms by (simp add: ssd1306_update_def ssd1306_data_write_def)
qed

subsection \<open>Operations on the buffer never answer that the session is not initialized\<close>

lemma no_noinit_simps [simp]:
  "no_noinit None" "no_noinit (Some (st, s')) = (st \<noteq> SSD1306_NOINIT)"
  by (simp_all add: no_noinit_def)

lemma no_noinitI:
  assumes "\<And>st s'. r = Some (st, s') \<Longrightarrow> st \<noteq> SSD1306_NOINIT"
  shows "no_noinit r"
  using assms by (cases r) auto

lemma draw_pixel_no_noinit: "ssd1306_draw_pixel s x y c = (st, s') \<Longrightarrow> st \<noteq> SSD1306_NOINIT"
  by (auto simp: ssd1306_draw_pixel_def Let_def split: if_splits)

lemma then_ok_no_noinit:
  assumes "no_noinit r" "\<And>s1. no_noinit (k s1)"
  shows "no_noinit (then_ok r k)"
  using assms by (cases r) (auto simp: then_ok_def)

lemma draw_line_loop_status:
  assumes "draw_line_loop s x0 y0 x1 y1 color dx sx dy sy err = Some r"
  shows "fst r \<noteq> SSD1306_NOINIT"
proof (rule draw_line_loop.raw_induct
    [where P = "\<lambda>s x0 y0 x1 y1 color dx sx dy sy err r. fst r \<noteq> SSD1306_NOINIT",
     OF _ assms], goal_cases)
  case (1 loop s x0 y0 x1 y1 color dx sx dy sy err r)
  obtain st1 s1 where px: "ssd1306_draw_pixel s x0 y0 color = (st1, s1)" by (metis surj_pair)
  note nn = draw_pixel_no_noinit [OF px]
  show ?case
  proof (cases "st1 = SSD1306_OK \<and> \<not> (x0 = x1 \<and> y0 = y1)")
    case True
    with 1(2) px have "\<exists>a b e. loop s1 a b x1 y1 color dx sx dy sy e = Some r"
      by (auto simp: Let_def)
    then show ?thesis using 1(1) by blast
  next
    case False
    with 1(2) have "r = (st1, s1)" unfolding px by (auto split: if_splits)
    with nn show ?thesis by simp
  qed
qed

lemma draw_line_loop_no_noinit:
  "no_noinit (draw_line_loop s x0 y0 x1 y1 color dx sx dy sy err)"
  by (rule no_noinitI) (use draw_line_loop_status in fastforce)

lemma draw_line_no_noinit: "no_noinit (ssd1306_draw_line s x0 y0 x1 y1 color)"
  by (simp add: ssd1306_draw_line_def Let_def draw_line_loop_no_noinit)

lemma draw_rect_no_noinit: "no_noinit (ssd1306_draw_rect s x y w h color)"
  unfolding ssd1306_draw_rect_def
  by (intro then_ok_no_noinit draw_line_no_noinit) simp

lemma draw_triangle_no_noinit: "no_noinit (ssd1306_draw_triangle s x1 y1 x2 y2 x3 y3 color)"
  unfolding ssd1306_draw_triangle_def
  by (intro then_ok_no_noinit draw_line_no_noinit) simp


lemma draw_filled_rect_loop_status:
  assumes "draw_filled_rect_loop s x y w h color i = Some r"
  shows "fst r \<noteq> SSD1306_NOINIT"
proof (rule draw_filled_rect_loop.raw_induct
    [where P = "\<lambda>s x y w h color i r. fst r \<noteq> SSD1306_NOINIT"
       and xa = "((((((s, x), y), w), h), color), i)" and ya = r, simplified, OF _ assms],
    goal_cases)
  case (1 loop s x y w h color i r)
  show ?case
  proof (cases "i \<le> h")
    case False
    with 1(2) show ?thesis by auto
  next
    case True
    show ?thesis
    proof (cases "ssd1306_draw_line s x (y + i) (x + w) (y + i) color")
      case None
      with True 1(2) show ?thesis by simp
    next
      case (Some a)
      obtain st s' where a: "a = (st, s')" by (metis surj_pair)
      have nn: "st \<noteq> SSD1306_NOINIT"
        using draw_line_no_noinit [of s x "y + i" "x + w" "y + i" color] Some a by simp
      show ?thesis
      proof (cases "st = SSD1306_OK")
        case False
        with True Some a 1(2) nn show ?thesis by auto
      next
        case ok: True
        with True Some a 1(2) have "loop s' x y w h color (i + 1) = Some r" by simp
        then show ?thesis by (rule 1(1))
      qed
    qed
  qed
qed

lemma draw_filled_rect_no_noinit: "no_noinit (ssd1306_draw_filled_rect s x y w h color)"
  unfolding ssd1306_draw_filled_rect_def
  by (rule no_noinitI) (use draw_filled_rect_loop_status in fastforce)


lemma draw_line_status:
  "ssd1306_draw_line s x0 y0 x1 y1 color = Some (st, s') \<Longrightarrow> st \<noteq> SSD1306_NOINIT"
  using draw_line_no_noinit [of s x0 y0 x1 y1 color] by simp

lemma draw_circle_loop_status:
  assumes "draw_circle_loop s xc yc color x y err = Some r"
  shows "fst r \<noteq> SSD1306_NOINIT"
proof (rule draw_circle_loop.raw_induct
    [where P = "\<lambda>s xc yc color x y err r. fst r \<noteq> SSD1306_NOINIT"
       and xa = "((((((s, xc), yc), color), x), y), err)" and ya = r, simplified, OF _ assms],
    goal_cases)
  case (1 loop s xc yc color x y err r)
  from 1(2) have "(\<exists>s' a b e. loop s' xc yc color a b e = Some r) \<or>
                  (\<exists>s0 a b. r = ssd1306_draw_pixel s0 a b color) \<or> fst r = SSD1306_OK"
    by (auto simp: Let_def split: prod.splits if_splits)
  then show ?case
    using 1(1) draw_pixel_no_noinit by (metis prod.collapse ssd1306_status_t.distinct(1))
qed

lemma draw_circle_no_noinit: "no_noinit (ssd1306_draw_circle s x0 y0 r color)"
  unfolding ssd1306_draw_circle_def Let_def
  by (rule no_noinitI) (use draw_circle_loop_status in fastforce)

lemma draw_filled_circle_loop_status:
  assumes "draw_filled_circle_loop s xc yc color x y err = Some r"
  shows "fst r \<noteq> SSD1306_NOINIT"
proof (rule draw_filled_circle_loop.raw_induct
    [where P = "\<lambda>s xc yc color x y err r. fst r \<noteq> SSD1306_NOINIT"
       and xa = "((((((s, xc), yc), color), x), y), err)" and ya = r, simplified, OF _ assms],
    goal_cases)
  case (1 loop s xc yc color x y err r)
  from 1(2) have "(\<exists>s' a b e. loop s' xc yc color a b e = Some r) \<or>
                  (\<exists>s0 a b c d. ssd1306_draw_line s0 a b c d color = Some r) \<or>
                  fst r = SSD1306_OK"
    by (auto simp: Let_def split: option.splits prod.splits if_splits)
  then show ?case
    using 1(1) draw_line_status by (metis prod.collapse ssd1306_status_t.distinct(1))
qed

lemma draw_filled_circle_no_noinit: "no_noinit (ssd1306_draw_filled_circle s x0 y0 r color)"
  unfolding ssd1306_draw_filled_circle_def Let_def
  by (rule no_noinitI) (use draw_filled_circle_loop_status in fastforce)

lemma draw_filled_triangle_loop_no_noinit:
  "no_noinit (draw_filled_triangle_loop s x3 y3 color xinc1 xinc2 yinc1 yinc2 den numadd x y num cs)"
proof (induction cs arbitrary: s x y num)
  case Nil
  show ?case by simp
next
  case (Cons c cs)
  show ?case
  proof (cases "ssd1306_draw_line s (word_of_int x) (word_of_int y) x3 y3 color")
    case None
    then show ?thesis by simp
  next
    case (Some a)
    obtain st s' where a: "a = (st, s')" by (metis surj_pair)
    have "st \<noteq> SSD1306_NOINIT" using Some a by (auto dest: draw_line_status)
    then show ?thesis using Some a Cons.IH by (simp add: Let_def)
  qed
qed

lemma draw_filled_triangle_no_noinit:
  "no_noinit (ssd1306_draw_filled_triangle s x1 y1 x2 y2 x3 y3 color)"
  unfolding ssd1306_draw_filled_triangle_def Let_def
  by (rule draw_filled_triangle_loop_no_noinit)

lemma draw_bitmap_row_status:
  "draw_bitmap_row s x y bitmap bw j color byte cols = Some (st, s', b') \<Longrightarrow> st \<noteq> SSD1306_NOINIT"
proof (induction cols arbitrary: s byte)
  case Nil
  then show ?case by simp
next
  case (Cons i cols)
  from Cons.prems have
    "(\<exists>s0 b0. draw_bitmap_row s0 x y bitmap bw j color b0 cols = Some (st, s', b')) \<or>
     (\<exists>s0 a. ssd1306_draw_pixel s0 a y color = (st, s'))"
    by (auto simp: Let_def split: if_splits prod.splits)
  then show ?case using Cons.IH draw_pixel_no_noinit by blast
qed

lemma draw_bitmap_rows_no_noinit:
  "no_noinit (draw_bitmap_rows s x y bitmap bw w color byte rows)"
proof (induction rows arbitrary: s y byte)
  case Nil
  show ?case by simp
next
  case (Cons j rows)
  show ?case
  proof (cases "draw_bitmap_row s x y bitmap bw j color byte [0..<unat w]")
    case None
    then show ?thesis by simp
  next
    case (Some a)
    obtain st s' b' where a: "a = (st, s', b')" by (metis prod_cases3)
    have "st \<noteq> SSD1306_NOINIT" using Some a by (auto dest: draw_bitmap_row_status)
    then show ?thesis using Some a Cons.IH by simp
  qed
qed

lemma draw_bitmap_no_noinit: "no_noinit (ssd1306_draw_bitmap s x y bitmap w h color)"
  unfolding ssd1306_draw_bitmap_def Let_def by (rule draw_bitmap_rows_no_noinit)

lemma draw_char_row_status:
  "draw_char_row s char_line i color js = (st, s') \<Longrightarrow> st \<noteq> SSD1306_NOINIT"
proof (induction js arbitrary: s)
  case Nil
  then show ?case by auto
next
  case (Cons j js)
  from Cons.prems have
    "(\<exists>s0. draw_char_row s0 char_line i color js = (st, s')) \<or>
     (\<exists>a b c. ssd1306_draw_pixel s a b c = (st, s'))"
    by (auto simp: Let_def split: if_splits prod.splits)
  then show ?case using Cons.IH draw_pixel_no_noinit by blast
qed

lemma draw_char_rows_status:
  "draw_char_rows font s ch color rows = (st, s') \<Longrightarrow> st \<noteq> SSD1306_NOINIT"
proof (induction rows arbitrary: s)
  case Nil
  then show ?case by auto
next
  case (Cons i rows)
  from Cons.prems have
    "(\<exists>s0. draw_char_rows font s0 ch color rows = (st, s')) \<or>
     (\<exists>l js. draw_char_row s l i color js = (st, s'))"
    by (auto simp: Let_def split: if_splits prod.splits)
  then show ?case using Cons.IH draw_char_row_status by blast
qed

lemma draw_char_no_noinit: "no_noinit (ssd1306_draw_char get_font_ptr s ch font_name color)"
  by (rule no_noinitI)
    (auto simp: ssd1306_draw_char_def Let_def split: option.splits prod.splits if_splits
      dest: draw_char_rows_status)

lemma draw_str_no_noinit: "no_noinit (ssd1306_draw_str get_font_ptr s str font_name color)"
proof (induction str arbitrary: s)
  case Nil
  show ?case by simp
next
  case (Cons ch str)
  show ?case
  proof (cases "ssd1306_draw_char get_font_ptr s ch font_name color")
    case None
    then show ?thesis by simp
  next
    case (Some a)
    obtain st s' where a: "a = (st, s')" by (metis surj_pair)
    have "st \<noteq> SSD1306_NOINIT"
      using draw_char_no_noinit [of get_font_ptr s ch font_name color] Some a by simp
    then show ?thesis using Some a Cons.IH by simp
  qed
qed

lemma draw_int_no_noinit: "no_noinit (ssd1306_draw_int get_font_ptr s num base font_name color)"
  by (simp add: ssd1306_draw_int_def draw_str_no_noinit split: option.splits)

text \<open>
  \<^bold>\<open>C1\<close> (as the code has it). On a session whose initialized flag is false, every
  operation that talks to the display (display on, display off, set contrast, set
  inversion, set scroll status, scroll with a scroll type of the enumeration, update and
  clear display) returns \<open>SSD1306_NOINIT\<close>, leaves the whole session, framebuffer included,
  as it was, and hands nothing to the transport. The operations that work on the buffer
  or the cursor alone (goto-xy, draw-fill, draw-pixel, clear-buffer, and the text and
  shape primitives) never return \<open>SSD1306_NOINIT\<close>: they do not test the flag.
\<close>

theorem uninitialized_bus_operations:
  assumes "\<not> initialized s"
  shows "ssd1306_display_on i2c s wire = (SSD1306_NOINIT, s, wire) \<and>
         ssd1306_display_off i2c s wire = (SSD1306_NOINIT, s, wire) \<and>
         ssd1306_set_contrast i2c s wire contrast_value = (SSD1306_NOINIT, s, wire) \<and>
         ssd1306_set_inversion i2c s wire is_inverted = (SSD1306_NOINIT, s, wire) \<and>
         ssd1306_set_scroll_status i2c s wire is_scrolling = (SSD1306_NOINIT, s, wire) \<and>
         (type \<in> {RIGHT_HORIZONTAL_SCROLL, LEFT_HORIZONTAL_SCROLL,
                   VERTICAL_RIGHT_HORIZONTAL_SCROLL, VERTICAL_LEFT_HORIZONTAL_SCROLL} \<longrightarrow>
            ssd1306_scroll i2c s wire type start_page end_page interval = (SSD1306_NOINIT, s, wire)) \<and>
         ssd1306_update i2c s wire = (SSD1306_NOINIT, s, wire) \<and>
         ssd1306_clear_display i2c s wire = (SSD1306_NOINIT, s, wire) \<and>
         fst (ssd1306_goto_xy s x y) \<noteq> SSD1306_NOINIT \<and>
         fst (ssd1306_draw_fill s color) \<noteq> SSD1306_NOINIT \<and>
         fst (ssd1306_draw_pixel s x y color) \<noteq> SSD1306_NOINIT \<and>
         fst (ssd1306_clear_buffer s) \<noteq> SSD1306_NOINIT \<and>
         no_noinit (ssd1306_draw_char get_font_ptr s ch font_name color) \<and>
         no_noinit (ssd1306_draw_str get_font_ptr s str font_name color) \<and>
         no_noinit (ssd1306_draw_int get_font_ptr s num base font_name color) \<and>
         no_noinit (ssd1306_draw_line s lx0 ly0 lx1 ly1 color) \<and>
         no_noinit (ssd1306_draw_rect s rx ry rw rh color) \<and>
         no_noinit (ssd1306_draw_filled_rect s rx ry rw rh color) \<and>
         no_noinit (ssd1306_draw_circle s cx0 cy0 cr color) \<and>
         no_noinit (ssd1306_draw_filled_circle s cx0 cy0 cr color) \<and>
         no_noinit (ssd1306_draw_triangle s tx1 ty1 tx2 ty2 tx3 ty3 color) \<and>
         no_noinit (ssd1306_draw_filled_triangle s tx1 ty1 tx2 ty2 tx3 ty3 color) \<and>
         no_noinit (ssd1306_draw_bitmap s bx by bitmap bw bh color)"
proof (intro conjI impI draw_char_no_noinit draw_str_no_noinit draw_int_no_noinit
    draw_line_no_noinit draw_rect_no_noinit draw_filled_rect_no_noinit draw_circle_no_noinit
    draw_filled_circle_no_noinit draw_triangle_no_noinit draw_filled_triangle_no_noinit
    draw_bitmap_no_noinit)
  show "ssd1306_display_on i2c s wire = (SSD1306_NOINIT, s, wire)"
    using assms by (simp add: ssd1306_display_on_def cmd_write_multi_noinit)
  show "ssd1306_display_off i2c s wire = (SSD1306_NOINIT, s, wire)"
    using assms by (simp add: ssd1306_display_off_def cmd_write_multi_noinit)
  show "ssd1306_set_contrast i2c s wire contrast_value = (SSD1306_NOINIT, s, wire)"
    using assms by (simp add: ssd1306_set_contrast_def cmd_write_multi_noinit)
  show inv: "ssd1306_set_inversion i2c s wire is_inverted = (SSD1306_NOINIT, s, wire)" for is_inverted
    using assms by (simp add: ssd1306_set_inversion_def cmd_write_multi_noinit)
  show "ssd1306_set_scroll_status i2c s wire is_scrolling = (SSD1306_NOINIT, s, wire)"
    using assms by (simp add: ssd1306_set_scroll_status_def cmd_write_multi_noinit)
  show "ssd1306_update i2c s wire = (SSD1306_NOINIT, s, wire)"
    using assms by (rule update_noinit)
  show "ssd1306_clear_display i2c s wire = (SSD1306_NOINIT, s, wire)"
    by (simp add: ssd1306_clear_display_def inv)
  show "fst (ssd1306_goto_xy s x y) \<noteq> SSD1306_NOINIT"
    by (simp add: ssd1306_goto_xy_def)
  show "fst (ssd1306_draw_fill s color) \<noteq> SSD1306_NOINIT"
    by (simp add: ssd1306_draw_fill_def)
  show "fst (ssd1306_draw_pixel s x y color) \<noteq> SSD1306_NOINIT"
    by (simp add: ssd1306_draw_pixel_def Let_def)
  show "fst (ssd1306_clear_buffer s) \<noteq> SSD1306_NOINIT"
    by (simp add: ssd1306_clear_buffer_def)
next
  assume "type \<in> {RIGHT_HORIZONTAL_SCROLL, LEFT_HORIZONTAL_SCROLL,
                   VERTICAL_RIGHT_HORIZONTAL_SCROLL, VERTICAL_LEFT_HORIZONTAL_SCROLL}"
  then show "ssd1306_scroll i2c s wire type start_page end_page interval = (SSD1306_NOINIT, s, wire)"
    using assms by (auto simp: ssd1306_scroll_def cmd_write_multi_noinit)
qed

theorem uninitialized_bus_operations_witness:
  "\<not> initialized zeroed \<and>
   ssd1306_update i2c_always_ok zeroed [] = (SSD1306_NOINIT, zeroed, []) \<and>
   ssd1306_clear_display i2c_always_ok zeroed [] = (SSD1306_NOINIT, zeroed, []) \<and>
   ssd1306_scroll i2c_always_ok zeroed [] LEFT_HORIZONTAL_SCROLL 0 7 0 = (SSD1306_NOINIT, zeroed, [])"
proof -
  have h: "\<not> initialized zeroed" by (simp add: zeroed_def)
  show ?thesis
    using h uninitialized_bus_operations [OF h, where i2c = i2c_always_ok and wire = "[]"
        and type = LEFT_HORIZONTAL_SCROLL and start_page = 0 and end_page = 7 and interval = 0]
    by simp
qed

text \<open>
  The claim C1 as stated fails: on the zeroed, uninitialized session, drawing the white
  pixel \<open>(0,0)\<close> returns OK and changes the framebuffer, and clearing the buffer returns OK.
\<close>

theorem uninitialized_draw_pixel_counterexample:
  "\<not> initialized zeroed \<and>
   fst (ssd1306_draw_pixel zeroed 0 0 SSD1306_COLOR_WHITE) = SSD1306_OK \<and>
   buffer (snd (ssd1306_draw_pixel zeroed 0 0 SSD1306_COLOR_WHITE)) \<noteq> buffer zeroed \<and>
   fst (ssd1306_clear_buffer zeroed) = SSD1306_OK"
proof -
  have z: "buffer zeroed = replicate 1024 0" "\<not> inverted zeroed" "\<not> initialized zeroed"
    by (simp_all add: zeroed_def consts_defs)
  have px: "ssd1306_draw_pixel zeroed 0 0 SSD1306_COLOR_WHITE =
        (SSD1306_OK, zeroed\<lparr>buffer := (buffer zeroed)[0 := (buffer zeroed ! 0) OR 1]\<rparr>)"
    using draw_pixel_row0_white [of zeroed 0] z by simp
  have "(buffer zeroed)[0 := (buffer zeroed ! 0) OR 1] ! 0 = 1" by (simp add: z)
  moreover have "buffer zeroed ! 0 = 0" by (simp add: z)
  ultimately have "(buffer zeroed)[0 := (buffer zeroed ! 0) OR 1] \<noteq> buffer zeroed"
    by (metis zero_neq_one)
  then show ?thesis using z px by (simp add: ssd1306_clear_buffer_def)
qed

section \<open>Drawing integers\<close>

text \<open>
  \<^bold>\<open>C4\<close> (as the code has it). For a base from 2 to 32, \<open>ssd1306_draw_int\<close> renders, with
  \<open>ssd1306_draw_str\<close>, the digits of the magnitude of its argument in that base, obtained
  by repeated division and reversal, preceded by a minus sign only when the argument is
  negative and the base is ten; for a base outside 2 to 32 it returns
  \<open>SSD1306_WRONG_PARAMS\<close> and leaves the session as it was. So \<open>-255\<close> in base 16 is rendered
  as \<open>FF\<close>, \<open>-255\<close> in base 10 as \<open>-255\<close> and \<open>0\<close> in base 10 as \<open>0\<close>. (The least 32-bit integer,
  whose negation overflows, is left out.)
\<close>

theorem draw_int_renders_sign10_string:
  assumes "sint num \<noteq> - (2 ^ 31)"
  shows "(2 \<le> base \<and> base \<le> 32 \<longrightarrow>
            ssd1306_draw_int get_font_ptr s num base font_name color =
              ssd1306_draw_str get_font_ptr s (sign10_string (sint num) (unat base)) font_name color) \<and>
         (base < 2 \<or> 32 < base \<longrightarrow>
            ssd1306_draw_int get_font_ptr s num base font_name color = Some (SSD1306_WRONG_PARAMS, s)) \<and>
         sign10_string (- 255) 16 = ''FF'' \<and> sign10_string (- 255) 10 = ''-255'' \<and>
         sign10_string 0 10 = ''0''"
proof (intro conjI impI)
  assume b: "2 \<le> base \<and> base \<le> 32"
  then have "unat base \<le> 32" by (simp add: word_le_nat_alt)
  then have "c_strlen_prefix (sign10_string (sint num) (unat base)) = sign10_string (sint num) (unat base)"
    by (intro c_strlen_prefix_id sign10_string_not_nul)
  moreover have "\<not> (base < 2 \<or> 32 < base)" using b by (simp add: not_less)
  ultimately show "ssd1306_draw_int get_font_ptr s num base font_name color =
      ssd1306_draw_str get_font_ptr s (sign10_string (sint num) (unat base)) font_name color"
    using draw_int_str_buf_eq [OF assms] b by (simp add: ssd1306_draw_int_def)
next
  assume "base < 2 \<or> 32 < base"
  then show "ssd1306_draw_int get_font_ptr s num base font_name color = Some (SSD1306_WRONG_PARAMS, s)"
    by (simp add: ssd1306_draw_int_def)
next
  show "sign10_string (- 255) 16 = ''FF''" by code_simp
  show "sign10_string (- 255) 10 = ''-255''" by code_simp
  show "sign10_string 0 10 = ''0''" by code_simp
qed


theorem draw_int_renders_sign10_string_witness:
  "sint (- 255 :: 32 word) \<noteq> - (2 ^ 31) \<and>
   ssd1306_draw_int dot_fonts ready (- 255) 16 0 SSD1306_COLOR_WHITE =
     ssd1306_draw_str dot_fonts ready ''FF'' 0 SSD1306_COLOR_WHITE \<and>
   ssd1306_draw_int dot_fonts ready (- 255) 10 0 SSD1306_COLOR_WHITE =
     ssd1306_draw_str dot_fonts ready ''-255'' 0 SSD1306_COLOR_WHITE \<and>
   ssd1306_draw_int dot_fonts ready (- 255) 33 0 SSD1306_COLOR_WHITE = Some (SSD1306_WRONG_PARAMS, ready)"
proof -
  have h: "sint (- 255 :: 32 word) \<noteq> - (2 ^ 31)" by simp
  have s: "sint (- 255 :: 32 word) = - 255" by simp
  show ?thesis
    using h draw_int_renders_sign10_string [OF h, of 16 dot_fonts ready 0 SSD1306_COLOR_WHITE]
      draw_int_renders_sign10_string [OF h, of 10 dot_fonts ready 0 SSD1306_COLOR_WHITE]
      draw_int_renders_sign10_string [OF h, of 33 dot_fonts ready 0 SSD1306_COLOR_WHITE]
    by (simp add: s)
qed

text \<open>
  The claim C4 as stated fails: the signed string of \<open>-255\<close> in base 16 is \<open>-FF\<close>, but the
  string \<open>ssd1306_draw_int\<close> builds is \<open>FF\<close>, and with a font one pixel wide its result
  differs from that of drawing \<open>-FF\<close> (the cursor ends two columns on, not three).
\<close>

theorem draw_int_hex_sign_counterexample:
  "spec_signed_string (- 255) 16 = ''-FF'' \<and>
   draw_int_str_buf (- 255) 16 = Some ''FF'' \<and>
   ssd1306_draw_int dot_fonts ready (- 255) 16 0 SSD1306_COLOR_WHITE \<noteq>
     ssd1306_draw_str dot_fonts ready ''-FF'' 0 SSD1306_COLOR_WHITE"
proof (intro conjI)
  show "spec_signed_string (- 255) 16 = ''-FF''" by code_simp
  show buf: "draw_int_str_buf (- 255) 16 = Some ''FF''" by code_simp
  have "ssd1306_draw_int dot_fonts ready (- 255) 16 0 SSD1306_COLOR_WHITE =
        ssd1306_draw_str dot_fonts ready ''FF'' 0 SSD1306_COLOR_WHITE"
    by (simp add: ssd1306_draw_int_def buf c_strlen_prefix_def)
  moreover obtain b2 where "ssd1306_draw_str dot_fonts ready ''FF'' 0 SSD1306_COLOR_WHITE =
      Some (SSD1306_OK, ready\<lparr>buffer := b2, x_pos := x_pos ready + of_nat (length ''FF'')\<rparr>)"
    using draw_str_dot by blast
  moreover obtain b3 where "ssd1306_draw_str dot_fonts ready ''-FF'' 0 SSD1306_COLOR_WHITE =
      Some (SSD1306_OK, ready\<lparr>buffer := b3, x_pos := x_pos ready + of_nat (length ''-FF'')\<rparr>)"
    using draw_str_dot by blast
  moreover have "x_pos (ready\<lparr>buffer := b2, x_pos := x_pos ready + of_nat (length ''FF'')\<rparr>) \<noteq>
                 x_pos (ready\<lparr>buffer := b3, x_pos := x_pos ready + of_nat (length ''-FF'')\<rparr>)"
    by simp
  ultimately show "ssd1306_draw_int dot_fonts ready (- 255) 16 0 SSD1306_COLOR_WHITE \<noteq>
     ssd1306_draw_str dot_fonts ready ''-FF'' 0 SSD1306_COLOR_WHITE"
    by (metis option.inject prod.inject)
qed

end
